theory Spec2Isabelle
  imports Complex_Main "HOL-Library.AList"
begin

section \<open>Data model (src/types.ts)\<close>

text \<open>
  Node and link objects live on the JavaScript heap and are shared by reference between the
  base arrays held by the engine and the arrays a query returns.  The embedding makes this
  explicit: a node object is an address, and a store maps each address to the record of its
  current field values.  Fields whose names are reserved words of the theory language carry
  the suffix \<open>_n\<close> (\<open>id\<close>, \<open>text\<close>, \<open>section\<close>, \<open>chapter\<close>) or \<open>_l\<close> (link fields).
  Optional and nullable fields are options: \<open>None\<close> stands for \<open>undefined\<close> and for \<open>null\<close>,
  which the code never tells apart.  Strings are lists of 8-bit characters; case folding and
  white space are the ASCII ones.  Whole numbers are \<open>int\<close>.
\<close>

type_synonym addr = nat

datatype propval = PStr string | POther

record Properties =
  p_full_name :: "string option"
  p_text :: "string option"
  p_definition :: "string option"
  p_others :: "(string \<times> propval) list"

datatype secnum = SecStr string | SecNum int

record GraphNode =
  id_n :: string
  name :: string
  val :: "int option"
  totalVal :: "int option"
  color :: "string option"
  baseColor :: "string option"
  node_type :: string
  title :: "string option"
  part :: "string option"
  chapter_n :: "string option"
  subchapter :: "string option"
  section_n :: "string option"
  display_label :: "string option"
  properties :: "Properties option"
  full_name :: "string option"
  text_n :: "string option"
  section_num :: "secnum option"
  section_heading :: "string option"
  section_text :: "string option"
  title_num :: "int option"
  entity :: "string option"
  tag :: "string option"
  term_type :: "string option"
  index_type :: "string option"
  index_heading :: "string option"
  extra :: "string \<Rightarrow> string option"

type_synonym store = "addr \<Rightarrow> GraphNode"

datatype endpoint = EId string | ENode addr

record GraphLink =
  source :: endpoint
  target :: endpoint
  edge_type :: string
  action :: string
  definition_l :: "string option"
  location :: "string option"
  timestamp :: "string option"
  weight :: "rat option"
  count_l :: "int option"

record Neighbor =
  neighborId :: string
  edgeType :: string

record NetworkBuilder =
  allNodes :: "addr list"
  allLinks :: "GraphLink list"
  adjacencyMap :: "string \<rightharpoonup> Neighbor list"

record NetworkBuilderState =
  searchTerms :: "string list"
  searchFields :: "string list"
  allowedNodeTypes :: "string list"
  allowedEdgeTypes :: "string list"
  allowedTitles :: "int list"
  allowedSections :: "string list"
  seedNodeIds :: "string list"
  expansionDepth :: int
  maxNodesPerExpansion :: int
  maxTotalNodes :: int

record FilteredGraph =
  nodes :: "addr list"
  links :: "GraphLink list"
  truncated :: bool
  matchedCount :: int

datatype Logic = LogicAND | LogicOR

datatype RankingMode = Global | Subgraph

section \<open>JavaScript library operations used by the engine\<close>

text \<open>A \<open>Set<string>\<close> iterates in insertion order: a list without duplicates.\<close>

definition set_add :: "string list \<Rightarrow> string \<Rightarrow> string list" where
  "set_add s x = (if x \<in> set s then s else s @ [x])"

definition new_Set :: "string list \<Rightarrow> string list" where
  "new_Set xs = foldl set_add [] xs"

text \<open>A \<open>Map\<close> iterates in insertion order and \<open>set\<close> on a present key replaces the value
  in place: \<open>AList.update\<close>.\<close>

definition map_has :: "('k \<times> 'v) list \<Rightarrow> 'k \<Rightarrow> bool" where
  "map_has m k = (k \<in> fst ` set m)"

definition toLowerChar :: "char \<Rightarrow> char" where
  "toLowerChar c =
     (case map_of (zip ''ABCDEFGHIJKLMNOPQRSTUVWXYZ'' ''abcdefghijklmnopqrstuvwxyz'') c of
        Some l \<Rightarrow> l | None \<Rightarrow> c)"

definition toLowerCase :: "string \<Rightarrow> string" where
  "toLowerCase s = map toLowerChar s"

definition isSpace :: "char \<Rightarrow> bool" where
  "isSpace c = (c \<in> set [CHR 0x09, CHR 0x0A, CHR 0x0B, CHR 0x0C, CHR 0x0D, CHR 0x20])"

definition trim :: "string \<Rightarrow> string" where
  "trim s = rev (dropWhile isSpace (rev (dropWhile isSpace s)))"

definition startsWith :: "string \<Rightarrow> string \<Rightarrow> bool" where
  "startsWith s p = (take (length p) s = p)"

fun includes_str :: "string \<Rightarrow> string \<Rightarrow> bool" where
  "includes_str [] p = (p = [])"
| "includes_str (c # cs) p = (startsWith (c # cs) p \<or> includes_str cs p)"

fun showNat :: "nat \<Rightarrow> string" where
  "showNat n =
     (if n < 10 then [''0123456789'' ! n]
      else showNat (n div 10) @ [''0123456789'' ! (n mod 10)])"

declare showNat.simps [simp del]

definition showInt :: "int \<Rightarrow> string" where
  "showInt i = (if i < 0 then CHR ''-'' # showNat (nat (- i)) else showNat (nat i))"

text \<open>\<open>parseInt(s)\<close> with no radix: leading white space, a sign, a \<open>0x\<close> prefix for base 16,
  then the longest run of digits; \<open>None\<close> is NaN.\<close>

definition digitVal :: "char \<Rightarrow> nat option" where
  "digitVal c = map_of (zip ''0123456789abcdef'' [0 ..< 16]) (toLowerChar c)"

definition isDigit :: "nat \<Rightarrow> char \<Rightarrow> bool" where
  "isDigit radix c = (case digitVal c of Some d \<Rightarrow> d < radix | None \<Rightarrow> False)"

definition digitsValue :: "nat \<Rightarrow> string \<Rightarrow> nat" where
  "digitsValue radix ds =
     foldl (\<lambda>acc c. acc * radix + (case digitVal c of Some d \<Rightarrow> d | None \<Rightarrow> 0)) 0 ds"

definition parseInt :: "string \<Rightarrow> int option" where
  "parseInt s =
     (let s1 = dropWhile isSpace s;
          neg = (take 1 s1 = ''-'');
          s2 = (if take 1 s1 = ''-'' \<or> take 1 s1 = ''+'' then drop 1 s1 else s1);
          hex = (take 2 s2 = ''0x'' \<or> take 2 s2 = ''0X'');
          radix = (if hex then 16 else 10);
          s3 = (if hex then drop 2 s2 else s2);
          ds = takeWhile (isDigit radix) s3
      in if ds = [] then None
         else Some ((if neg then - 1 else 1) * int (digitsValue radix ds)))"

text \<open>\<open>a || b\<close> on optional strings: \<open>a\<close> when it is truthy (present and non-empty),
  otherwise \<open>b\<close>, whatever \<open>b\<close> is.\<close>

definition truthy_str :: "string option \<Rightarrow> bool" where
  "truthy_str a = (case a of Some s \<Rightarrow> s \<noteq> [] | None \<Rightarrow> False)"

definition js_or :: "string option \<Rightarrow> string option \<Rightarrow> string option" where
  "js_or a b = (if truthy_str a then a else b)"

definition secnum_str :: "secnum \<Rightarrow> string" where
  "secnum_str v = (case v of SecStr s \<Rightarrow> s | SecNum n \<Rightarrow> showInt n)"

definition truthy_secnum :: "secnum option \<Rightarrow> bool" where
  "truthy_secnum a = (case a of Some (SecStr s) \<Rightarrow> s \<noteq> [] | Some (SecNum n) \<Rightarrow> n \<noteq> 0 | None \<Rightarrow> False)"

text \<open>\<open>xs.slice(0, n)\<close>: a negative \<open>n\<close> counts from the end.\<close>

definition slice0 :: "'a list \<Rightarrow> int \<Rightarrow> 'a list" where
  "slice0 xs n = (if 0 \<le> n then take (nat n) xs else take (length xs - nat (- n)) xs)"

text \<open>\<open>Math.round\<close>: to the nearest integer, a tie towards plus infinity.\<close>

definition js_round :: "rat \<Rightarrow> int" where
  "js_round x = \<lfloor>x + 1 / 2\<rfloor>"

section \<open>The engine (src/services/networkBuilder.ts)\<close>

definition sourceId :: "store \<Rightarrow> GraphLink \<Rightarrow> string" where
  "sourceId h link = (case source link of EId s \<Rightarrow> s | ENode a \<Rightarrow> id_n (h a))"

definition targetId :: "store \<Rightarrow> GraphLink \<Rightarrow> string" where
  "targetId h link = (case target link of EId s \<Rightarrow> s | ENode a \<Rightarrow> id_n (h a))"

subsection \<open>constructor\<close>

definition adj_get :: "(string \<rightharpoonup> Neighbor list) \<Rightarrow> string \<Rightarrow> Neighbor list" where
  "adj_get m k = (case m k of Some ns \<Rightarrow> ns | None \<Rightarrow> [])"

definition addLink :: "store \<Rightarrow> (string \<rightharpoonup> Neighbor list) \<Rightarrow> GraphLink \<Rightarrow> (string \<rightharpoonup> Neighbor list)" where
  "addLink h m link =
     (let sId = sourceId h link;
          tId = targetId h link;
          et = edge_type link;
          m1 = (if m sId = None then m(sId \<mapsto> []) else m);
          m2 = (if m1 tId = None then m1(tId \<mapsto> []) else m1);
          m3 = m2(sId \<mapsto> adj_get m2 sId @ [\<lparr>neighborId = tId, edgeType = et\<rparr>]);
          m4 = m3(tId \<mapsto> adj_get m3 tId @ [\<lparr>neighborId = sId, edgeType = et\<rparr>])
      in m4)"

definition constructor :: "store \<Rightarrow> addr list \<Rightarrow> GraphLink list \<Rightarrow> NetworkBuilder" where
  "constructor h ns ls =
     \<lparr>allNodes = ns, allLinks = ls, adjacencyMap = foldl (addLink h) Map.empty ls\<rparr>"

subsection \<open>searchNodes\<close>

definition prop_of :: "GraphNode \<Rightarrow> (Properties \<Rightarrow> string option) \<Rightarrow> string option" where
  "prop_of node f = (case properties node of Some p \<Rightarrow> f p | None \<Rightarrow> None)"

definition propStrings :: "Properties \<Rightarrow> string list" where
  "propStrings p =
     (case p_full_name p of Some s \<Rightarrow> [s] | None \<Rightarrow> []) @
     (case p_text p of Some s \<Rightarrow> [s] | None \<Rightarrow> []) @
     (case p_definition p of Some s \<Rightarrow> [s] | None \<Rightarrow> []) @
     concat (map (\<lambda>(k, v). case v of PStr s \<Rightarrow> [s] | POther \<Rightarrow> []) (p_others p))"

text \<open>The \<open>default\<close> branch, \<open>(node as any)[field]\<close>, already passed through \<open>String\<close>.  The
  keys the \<open>switch\<close> handles itself never reach it.  Attributes outside the declared record
  (the layout engine's coordinates, for instance) are the \<open>extra\<close> field.\<close>

definition attr :: "GraphNode \<Rightarrow> string \<Rightarrow> string option" where
  "attr node field =
     (if field = ''id'' then Some (id_n node)
      else if field = ''name'' then Some (name node)
      else if field = ''val'' then map_option showInt (val node)
      else if field = ''totalVal'' then map_option showInt (totalVal node)
      else if field = ''color'' then color node
      else if field = ''baseColor'' then baseColor node
      else if field = ''node_type'' then Some (node_type node)
      else if field = ''title'' then title node
      else if field = ''part'' then part node
      else if field = ''chapter'' then chapter_n node
      else if field = ''subchapter'' then subchapter node
      else if field = ''section'' then section_n node
      else if field = ''title_num'' then map_option showInt (title_num node)
      else if field = ''term_type'' then term_type node
      else if field = ''index_type'' then index_type node
      else if field = ''index_heading'' then index_heading node
      else extra node field)"

definition pushValue :: "string option \<Rightarrow> string list" where
  "pushValue v = (case v of Some s \<Rightarrow> [toLowerCase s] | None \<Rightarrow> [])"

definition fieldValues :: "GraphNode \<Rightarrow> string \<Rightarrow> string list" where
  "fieldValues node field =
     (if field = ''text'' then
        pushValue (js_or (js_or (js_or (prop_of node p_text) (text_n node)) (section_text node))
                     (index_heading node))
      else if field = ''full_name'' then pushValue (js_or (prop_of node p_full_name) (full_name node))
      else if field = ''display_label'' then pushValue (display_label node)
      else if field = ''definition'' then pushValue (prop_of node p_definition)
      else if field = ''entity'' then
        pushValue (if node_type node = ''entity'' then Some (name node) else None)
      else if field = ''concept'' then
        pushValue (if node_type node = ''concept'' then Some (name node) else None)
      else if field = ''properties'' then
        (case properties node of Some p \<Rightarrow> map toLowerCase (propStrings p) | None \<Rightarrow> [])
      else if field = ''section_text'' then
        pushValue (js_or (js_or (section_text node) (prop_of node p_text)) (text_n node))
      else if field = ''section_heading'' then pushValue (section_heading node)
      else if field = ''section_num'' then pushValue (map_option secnum_str (section_num node))
      else if field = ''tag'' then
        pushValue (if node_type node = ''concept'' then Some (name node) else None)
      else pushValue (attr node field))"

definition searchableValues :: "GraphNode \<Rightarrow> string list \<Rightarrow> string list" where
  "searchableValues node flds = concat (map (fieldValues node) flds)"

definition termFound :: "string list \<Rightarrow> string \<Rightarrow> bool" where
  "termFound vals term = list_ex (\<lambda>searchableValue. includes_str searchableValue term) vals"

definition nodeMatches :: "Logic \<Rightarrow> string list \<Rightarrow> string list \<Rightarrow> bool" where
  "nodeMatches logic normalizedTerms vals =
     (if logic = LogicOR then list_ex (termFound vals) normalizedTerms
      else list_all (termFound vals) normalizedTerms)"

definition searchNodes :: "store \<Rightarrow> NetworkBuilder \<Rightarrow> string list \<Rightarrow> string list \<Rightarrow> Logic \<Rightarrow> string list" where
  "searchNodes h nb terms flds logic =
     (let normalizedTerms = map (\<lambda>t. trim (toLowerCase t)) terms
      in foldl (\<lambda>matchedIds a.
                  if nodeMatches logic normalizedTerms (searchableValues (h a) flds)
                  then set_add matchedIds (id_n (h a)) else matchedIds)
           [] (allNodes nb))"

subsection \<open>filterByAttributes\<close>

definition typeMatch :: "string list \<Rightarrow> GraphNode \<Rightarrow> bool" where
  "typeMatch allowedTypes node = (allowedTypes = [] \<or> node_type node \<in> set allowedTypes)"

definition titlePredicate :: "int list \<Rightarrow> GraphNode \<Rightarrow> bool" where
  "titlePredicate titles node =
     ((node_type node = ''section'' \<or> node_type node = ''index'') \<and>
      ((case title_num node of Some n \<Rightarrow> n \<noteq> 0 \<and> n \<in> set titles | None \<Rightarrow> False) \<or>
       (truthy_str (title node) \<and>
        (case title node of
           Some s \<Rightarrow> (case parseInt s of Some n \<Rightarrow> n \<in> set titles | None \<Rightarrow> False)
         | None \<Rightarrow> False))))"

definition titleMatch :: "int list \<Rightarrow> GraphNode \<Rightarrow> bool" where
  "titleMatch titles node = (titles = [] \<or> titlePredicate titles node)"

definition sectionPredicate :: "string list \<Rightarrow> GraphNode \<Rightarrow> bool" where
  "sectionPredicate sections node =
     (truthy_secnum (section_num node) \<and>
      (case section_num node of
         Some v \<Rightarrow> list_ex (\<lambda>s. includes_str (toLowerCase (secnum_str v)) (toLowerCase s)) sections
       | None \<Rightarrow> False))"

definition sectionMatch :: "string list \<Rightarrow> GraphNode \<Rightarrow> bool" where
  "sectionMatch sections node = (sections = [] \<or> sectionPredicate sections node)"

definition attributeMatch :: "string list \<Rightarrow> int list \<Rightarrow> string list \<Rightarrow> GraphNode \<Rightarrow> bool" where
  "attributeMatch allowedTypes titles sections node =
     (if allowedTypes \<noteq> [] then typeMatch allowedTypes node
      else if titles = [] \<and> sections = [] then True
      else titleMatch titles node \<or> sectionMatch sections node)"

definition filterByAttributes :: "store \<Rightarrow> NetworkBuilder \<Rightarrow> string list \<Rightarrow> int list \<Rightarrow> string list \<Rightarrow> string list" where
  "filterByAttributes h nb allowedTypes titles sections =
     foldl (\<lambda>matchedIds a.
              if attributeMatch allowedTypes titles sections (h a)
              then set_add matchedIds (id_n (h a)) else matchedIds)
       [] (allNodes nb)"

subsection \<open>expandFromSeeds\<close>

definition limitedNeighbors :: "NetworkBuilder \<Rightarrow> int \<Rightarrow> string list \<Rightarrow> string \<Rightarrow> Neighbor list" where
  "limitedNeighbors nb maxNeighborsPerNode allowed nodeId =
     (let neighbors = adj_get (adjacencyMap nb) nodeId;
          filteredNeighbors =
            (if allowed = [] then neighbors
             else filter (\<lambda>n. edgeType n \<in> set allowed) neighbors)
      in if maxNeighborsPerNode > 0 then slice0 filteredNeighbors maxNeighborsPerNode
         else filteredNeighbors)"

text \<open>The loop state is the pair (\<open>expanded\<close>, \<open>nextLayer\<close>).\<close>

definition visitNeighbor :: "string list \<times> string list \<Rightarrow> Neighbor \<Rightarrow> string list \<times> string list" where
  "visitNeighbor s n =
     (if neighborId n \<in> set (fst s) then s
      else (set_add (fst s) (neighborId n), set_add (snd s) (neighborId n)))"

definition expandLayer ::
  "NetworkBuilder \<Rightarrow> int \<Rightarrow> string list \<Rightarrow> string list \<Rightarrow> string list \<Rightarrow> string list \<times> string list" where
  "expandLayer nb maxN allowed expanded currentLayer =
     foldl (\<lambda>s nodeId. foldl visitNeighbor s (limitedNeighbors nb maxN allowed nodeId))
       (expanded, []) currentLayer"

text \<open>The \<open>for\<close> loop, by the number of rounds still to run; the \<open>break\<close> is the first branch.\<close>

fun expandLoop ::
  "NetworkBuilder \<Rightarrow> int \<Rightarrow> string list \<Rightarrow> nat \<Rightarrow> string list \<Rightarrow> string list \<Rightarrow> string list" where
  "expandLoop nb maxN allowed 0 expanded currentLayer = expanded"
| "expandLoop nb maxN allowed (Suc k) expanded currentLayer =
     (let r = expandLayer nb maxN allowed expanded currentLayer
      in if snd r = [] then fst r else expandLoop nb maxN allowed k (fst r) (snd r))"

definition expandFromSeeds ::
  "NetworkBuilder \<Rightarrow> string list \<Rightarrow> int \<Rightarrow> int \<Rightarrow> string list \<Rightarrow> string list" where
  "expandFromSeeds nb seedIds depth maxNeighborsPerNode allowedTypes =
     expandLoop nb maxNeighborsPerNode allowedTypes (nat depth) (new_Set seedIds) (new_Set seedIds)"

subsection \<open>selectTopNodesByDegree\<close>

text \<open>\<open>sort\<close> is stable and the comparator orders by descending degree.\<close>

definition selectTopNodesByDegree :: "NetworkBuilder \<Rightarrow> string list \<Rightarrow> int \<Rightarrow> string list" where
  "selectTopNodesByDegree nb nodeIds maxNodes =
     (let nodeDegrees =
            foldl (\<lambda>m nodeId. AList.update nodeId (length (adj_get (adjacencyMap nb) nodeId)) m)
              [] nodeIds
      in map fst (slice0 (sort_key (\<lambda>e. - int (snd e)) nodeDegrees) maxNodes))"

subsection \<open>buildNetwork\<close>

definition emptyGraph :: FilteredGraph where
  "emptyGraph = \<lparr>nodes = [], links = [], truncated = False, matchedCount = 0\<rparr>"

definition searched :: "NetworkBuilderState \<Rightarrow> bool" where
  "searched st = (searchTerms st \<noteq> [] \<and> searchFields st \<noteq> [])"

text \<open>Step 1: the seeds, and the candidates they expand to.\<close>

definition seedsOf :: "store \<Rightarrow> NetworkBuilder \<Rightarrow> NetworkBuilderState \<Rightarrow> Logic \<Rightarrow> string list" where
  "seedsOf h nb st searchLogic =
     (if searched st then searchNodes h nb (searchTerms st) (searchFields st) searchLogic else [])"

definition expandedCandidates ::
  "store \<Rightarrow> NetworkBuilder \<Rightarrow> NetworkBuilderState \<Rightarrow> string list \<Rightarrow> string list" where
  "expandedCandidates h nb st seedIds =
     (if searched st then
        (if expansionDepth st > 0 then
           expandFromSeeds nb seedIds (expansionDepth st) (maxNodesPerExpansion st)
             (allowedEdgeTypes st)
         else new_Set seedIds)
      else new_Set (map (\<lambda>a. id_n (h a)) (allNodes nb)))"

text \<open>Step 2: the type filter, on seeds only.\<close>

definition seedTypeOk :: "store \<Rightarrow> NetworkBuilder \<Rightarrow> NetworkBuilderState \<Rightarrow> string \<Rightarrow> bool" where
  "seedTypeOk h nb st i =
     (case find (\<lambda>a. id_n (h a) = i) (allNodes nb) of
        Some a \<Rightarrow> node_type (h a) \<in> set (allowedNodeTypes st)
      | None \<Rightarrow> False)"

definition typeFiltered ::
  "store \<Rightarrow> NetworkBuilder \<Rightarrow> NetworkBuilderState \<Rightarrow> string list \<Rightarrow> string list \<Rightarrow> string list" where
  "typeFiltered h nb st seedIds candidateNodeIds =
     (if searched st \<and> allowedNodeTypes st \<noteq> [] then
        (let seedsAfterTypeFilter = new_Set (filter (seedTypeOk h nb st) seedIds)
         in new_Set (filter (\<lambda>i. i \<in> set seedsAfterTypeFilter \<or> i \<notin> set seedIds)
                       candidateNodeIds))
      else candidateNodeIds)"

text \<open>Steps 3 and 7: the \<open>Map\<close> from id to node object, filled in the order of \<open>allNodes\<close>.\<close>

definition nodeMapOf :: "store \<Rightarrow> NetworkBuilder \<Rightarrow> string list \<Rightarrow> (string \<times> addr) list" where
  "nodeMapOf h nb ids =
     foldl (\<lambda>m a. if id_n (h a) \<in> set ids then AList.update (id_n (h a)) a m else m)
       [] (allNodes nb)"

text \<open>Step 4.\<close>

definition edgeTypeMatch :: "NetworkBuilderState \<Rightarrow> GraphLink \<Rightarrow> bool" where
  "edgeTypeMatch st link =
     (allowedEdgeTypes st = [] \<or> edge_type link \<in> set (allowedEdgeTypes st))"

definition linksWithin :: "store \<Rightarrow> (string \<times> addr) list \<Rightarrow> GraphLink list \<Rightarrow> GraphLink list" where
  "linksWithin h nodeMap ls =
     filter (\<lambda>link. map_has nodeMap (sourceId h link) \<and> map_has nodeMap (targetId h link)) ls"

definition candidateLinksOf ::
  "store \<Rightarrow> NetworkBuilder \<Rightarrow> NetworkBuilderState \<Rightarrow> (string \<times> addr) list \<Rightarrow> GraphLink list" where
  "candidateLinksOf h nb st candidateNodeMap =
     filter (\<lambda>link. edgeTypeMatch st link \<and> map_has candidateNodeMap (sourceId h link) \<and>
                    map_has candidateNodeMap (targetId h link))
       (allLinks nb)"

text \<open>Step 5.\<close>

definition nodesWithEdgesOf :: "store \<Rightarrow> GraphLink list \<Rightarrow> string list" where
  "nodesWithEdgesOf h ls =
     foldl (\<lambda>s link. set_add (set_add s (sourceId h link)) (targetId h link)) [] ls"

definition connectedOf :: "store \<Rightarrow> addr list \<Rightarrow> string list \<Rightarrow> string list" where
  "connectedOf h candidateNodes nodesWithEdges =
     new_Set (map (\<lambda>a. id_n (h a)) (filter (\<lambda>a. id_n (h a) \<in> set nodesWithEdges) candidateNodes))"

text \<open>Steps 1b to 5 together: the candidate links and the connected candidate ids.\<close>

definition candidateStage ::
  "store \<Rightarrow> NetworkBuilder \<Rightarrow> NetworkBuilderState \<Rightarrow> string list \<Rightarrow> GraphLink list \<times> string list" where
  "candidateStage h nb st seedIds =
     (let candidateNodeIds = typeFiltered h nb st seedIds (expandedCandidates h nb st seedIds);
          candidateNodeMap = nodeMapOf h nb candidateNodeIds;
          candidateNodes = map snd candidateNodeMap;
          candidateLinks = candidateLinksOf h nb st candidateNodeMap;
          connectedNodeIds = connectedOf h candidateNodes (nodesWithEdgesOf h candidateLinks)
      in (candidateLinks, connectedNodeIds))"

text \<open>Step 6: the degree table of a link list, and the two rankings.\<close>

definition degree_get :: "(string \<times> nat) list \<Rightarrow> string \<Rightarrow> nat" where
  "degree_get m k = (case map_of m k of Some d \<Rightarrow> d | None \<Rightarrow> 0)"

definition bumpDegree :: "(string \<times> nat) list \<Rightarrow> string \<Rightarrow> (string \<times> nat) list" where
  "bumpDegree m k = AList.update k (degree_get m k + 1) m"

definition countDegrees :: "store \<Rightarrow> GraphLink list \<Rightarrow> (string \<times> nat) list" where
  "countDegrees h ls =
     foldl (\<lambda>m link. bumpDegree (bumpDegree m (sourceId h link)) (targetId h link)) [] ls"

definition subgraphTop :: "store \<Rightarrow> GraphLink list \<Rightarrow> string list \<Rightarrow> int \<Rightarrow> string list" where
  "subgraphTop h candidateLinks connectedNodeIds maxNodes =
     (let nodeDegrees = countDegrees h candidateLinks
      in slice0 (sort_key (\<lambda>i. - int (degree_get nodeDegrees i))
                   (filter (map_has nodeDegrees) connectedNodeIds))
           maxNodes)"

definition finalNodeIdsOf ::
  "store \<Rightarrow> NetworkBuilder \<Rightarrow> RankingMode \<Rightarrow> int \<Rightarrow> GraphLink list \<Rightarrow> string list \<Rightarrow> string list" where
  "finalNodeIdsOf h nb nodeRankingMode maxNodes candidateLinks connectedNodeIds =
     (if int (length connectedNodeIds) > maxNodes then
        (if nodeRankingMode = Subgraph then
           new_Set (subgraphTop h candidateLinks connectedNodeIds maxNodes)
         else new_Set (selectTopNodesByDegree nb connectedNodeIds maxNodes))
      else connectedNodeIds)"

text \<open>Step 8.  \<open>forEachNode f\<close> is \<open>nodes.forEach(node => ...)\<close> with a body that assigns
  fields of \<open>node\<close>: the store changes at the address of each node in turn.

  The arithmetic on doubles is exact on the whole numbers that occur; the quotient, the
  product and the sum of the colour interpolation are rounded to a double.  That rounding
  is the parameter \<open>fl\<close>, applied after each of the three operations.\<close>

definition forEachNode :: "(GraphNode \<Rightarrow> GraphNode) \<Rightarrow> addr list \<Rightarrow> store \<Rightarrow> store" where
  "forEachNode f ns h = foldl (\<lambda>h' a. h'(a := f (h' a))) h ns"

definition setVal :: "(string \<times> nat) list \<Rightarrow> GraphNode \<Rightarrow> GraphNode" where
  "setVal nodeDegree node =
     (let v = (if degree_get nodeDegree (id_n node) = 0 then 1
               else int (degree_get nodeDegree (id_n node)))
      in node\<lparr>val := Some v, totalVal := Some v\<rparr>)"

text \<open>\<open>n.val\<close> as read back by \<open>Math.max\<close> and \<open>strength\<close>; every node read has just been
  assigned a value, so the second branch is never taken.\<close>

definition valOf :: "GraphNode \<Rightarrow> int" where
  "valOf node = (case val node of Some v \<Rightarrow> v | None \<Rightarrow> 0)"

definition channel :: "(rat \<Rightarrow> rat) \<Rightarrow> int \<Rightarrow> int \<Rightarrow> rat \<Rightarrow> int" where
  "channel fl c1 c2 t = js_round (fl (of_int c1 + fl (of_int (c2 - c1) * t)))"

definition rgb :: "int \<Rightarrow> int \<Rightarrow> int \<Rightarrow> string" where
  "rgb r g b = ''rgb('' @ showInt r @ '', '' @ showInt g @ '', '' @ showInt b @ '')''"

definition sectionColorScale :: "(rat \<Rightarrow> rat) \<Rightarrow> rat \<Rightarrow> string" where
  "sectionColorScale fl t =
     rgb (channel fl 0x9B 0x41 t) (channel fl 0x96 0x37 t) (channel fl 0xC9 0x8F t)"

definition entityColorScale :: "(rat \<Rightarrow> rat) \<Rightarrow> rat \<Rightarrow> string" where
  "entityColorScale fl t =
     rgb (channel fl 0xF9 0xF0 t) (channel fl 0xD9 0xA7 t) (channel fl 0x9B 0x34 t)"

definition conceptColorScale :: "(rat \<Rightarrow> rat) \<Rightarrow> rat \<Rightarrow> string" where
  "conceptColorScale fl t =
     rgb (channel fl 0xE8 0x9C t) (channel fl 0xB3 0x33 t) (channel fl 0xE3 0x91 t)"

definition strength :: "(rat \<Rightarrow> rat) \<Rightarrow> int \<Rightarrow> int \<Rightarrow> rat" where
  "strength fl maxVal v = fl (of_int v / of_int maxVal)"

definition setColor :: "(rat \<Rightarrow> rat) \<Rightarrow> int \<Rightarrow> GraphNode \<Rightarrow> GraphNode" where
  "setColor fl maxVal node =
     (let t = strength fl maxVal (valOf node);
          c = (if node_type node = ''section'' \<or> node_type node = ''index'' then sectionColorScale fl t
               else if node_type node = ''entity'' then entityColorScale fl t
               else if node_type node = ''concept'' then conceptColorScale fl t
               else ''#AFBBE8'')
      in node\<lparr>color := Some c, baseColor := Some c\<rparr>)"

definition maxValOf :: "store \<Rightarrow> addr list \<Rightarrow> int" where
  "maxValOf h ns = fold max (map (\<lambda>a. valOf (h a)) ns) 1"

definition encode :: "(rat \<Rightarrow> rat) \<Rightarrow> store \<Rightarrow> addr list \<Rightarrow> GraphLink list \<Rightarrow> store" where
  "encode fl h ns ls =
     (let nodeDegree = countDegrees h ls;
          h1 = forEachNode (setVal nodeDegree) ns h;
          maxVal = maxValOf h1 ns
      in forEachNode (setColor fl maxVal) ns h1)"

definition buildNetwork ::
  "(rat \<Rightarrow> rat) \<Rightarrow> store \<Rightarrow> NetworkBuilder \<Rightarrow> NetworkBuilderState \<Rightarrow> Logic \<Rightarrow> RankingMode
     \<Rightarrow> store \<times> FilteredGraph" where
  "buildNetwork fl h nb st searchLogic nodeRankingMode =
     (let seedIds = seedsOf h nb st searchLogic
      in if searched st \<and> seedIds = [] then (h, emptyGraph)
         else
           (let cs = candidateStage h nb st seedIds;
                candidateLinks = fst cs;
                connectedNodeIds = snd cs;
                totalMatches = int (length connectedNodeIds);
                finalNodeIds =
                  finalNodeIdsOf h nb nodeRankingMode (maxTotalNodes st) candidateLinks
                    connectedNodeIds;
                selectedNodeMap = nodeMapOf h nb finalNodeIds;
                ns = map snd selectedNodeMap;
                ls = linksWithin h selectedNodeMap candidateLinks
            in (encode fl h ns ls,
                \<lparr>nodes = ns, links = ls, truncated = (totalMatches > maxTotalNodes st),
                 matchedCount = totalMatches\<rparr>)))"

section \<open>Concrete graphs used in the examples\<close>

definition mkNode :: "string \<Rightarrow> string \<Rightarrow> GraphNode" where
  "mkNode i ty =
     \<lparr>id_n = i, name = i, val = None, totalVal = None, color = None, baseColor = None,
      node_type = ty, title = None, part = None, chapter_n = None, subchapter = None,
      section_n = None, display_label = None, properties = None, full_name = None,
      text_n = None, section_num = None, section_heading = None, section_text = None,
      title_num = None, entity = None, tag = None, term_type = None, index_type = None,
      index_heading = None, extra = (\<lambda>k. None)\<rparr>"

definition mkLink :: "string \<Rightarrow> string \<Rightarrow> string \<Rightarrow> GraphLink" where
  "mkLink s t et =
     \<lparr>source = EId s, target = EId t, edge_type = et, action = ''references'',
      definition_l = None, location = None, timestamp = None, weight = None, count_l = None\<rparr>"

definition mkState :: "int \<Rightarrow> NetworkBuilderState" where
  "mkState cap =
     \<lparr>searchTerms = [], searchFields = [], allowedNodeTypes = [], allowedEdgeTypes = [],
      allowedTitles = [], allowedSections = [], seedNodeIds = [], expansionDepth = 0,
      maxNodesPerExpansion = 0, maxTotalNodes = cap\<rparr>"

text \<open>Four section nodes \<open>A\<close>, \<open>B\<close>, \<open>C\<close>, \<open>D\<close> at the addresses 0 to 3.\<close>

definition store4 :: store where
  "store4 a =
     (if a = 0 then mkNode ''A'' ''section'' else if a = 1 then mkNode ''B'' ''section''
      else if a = 2 then mkNode ''C'' ''section'' else mkNode ''D'' ''section'')"

definition nb4 :: NetworkBuilder where
  "nb4 = constructor store4 [0, 1, 2, 3]
           [mkLink ''A'' ''B'' ''reference'', mkLink ''C'' ''D'' ''reference'']"

definition titledState :: NetworkBuilderState where
  "titledState = (mkState 3)\<lparr>allowedTitles := [26], allowedSections := [''61'']\<rparr>"

text \<open>The chain \<open>A - B - C - D\<close>.\<close>

definition nbChain :: NetworkBuilder where
  "nbChain = constructor store4 [0, 1, 2, 3]
     [mkLink ''A'' ''B'' ''reference'', mkLink ''B'' ''C'' ''reference'',
      mkLink ''C'' ''D'' ''reference'']"

text \<open>A section node with section number 61 and an entity node without one; no links.\<close>

definition storeSec :: store where
  "storeSec a =
     (if a = 0 then (mkNode ''S61'' ''section'')\<lparr>section_num := Some (SecStr ''61'')\<rparr>
      else mkNode ''E'' ''entity'')"

definition nbSec :: NetworkBuilder where
  "nbSec = constructor storeSec [0, 1] []"

text \<open>The graph of \<open>nb4\<close> with two more links, from \<open>C\<close> and from \<open>D\<close> to an id \<open>X\<close> that no
  node has.\<close>

definition nbDangling :: NetworkBuilder where
  "nbDangling = constructor store4 [0, 1, 2, 3]
     [mkLink ''A'' ''B'' ''reference'', mkLink ''C'' ''D'' ''reference'',
      mkLink ''C'' ''X'' ''reference'', mkLink ''D'' ''X'' ''reference'']"

section \<open>What the specification says of the visual encoding\<close>

text \<open>The local degree of an id in a link list: the number of link ends at it.\<close>

definition degreeIn :: "store \<Rightarrow> GraphLink list \<Rightarrow> string \<Rightarrow> nat" where
  "degreeIn h ls i =
     length (filter (\<lambda>l. sourceId h l = i) ls) + length (filter (\<lambda>l. targetId h l = i) ls)"

text \<open>The size value: the local degree, or 1 for a node without a link.\<close>

definition sizeValue :: "store \<Rightarrow> GraphLink list \<Rightarrow> string \<Rightarrow> int" where
  "sizeValue h ls i = (if degreeIn h ls i = 0 then 1 else int (degreeIn h ls i))"

definition maxSize :: "store \<Rightarrow> GraphLink list \<Rightarrow> addr list \<Rightarrow> int" where
  "maxSize h ls ns = Max (insert 1 ((\<lambda>a. sizeValue h ls (id_n (h a))) ` set ns))"

text \<open>The anchor table of the specification (low, then high), and the interpolation rounded
  per channel.\<close>

definition anchors :: "string \<Rightarrow> ((int \<times> int \<times> int) \<times> (int \<times> int \<times> int)) option" where
  "anchors ty =
     (if ty = ''section'' \<or> ty = ''index'' then Some ((0x9B, 0x96, 0xC9), (0x41, 0x37, 0x8F))
      else if ty = ''entity'' then Some ((0xF9, 0xD9, 0x9B), (0xF0, 0xA7, 0x34))
      else if ty = ''concept'' then Some ((0xE8, 0xB3, 0xE3), (0x9C, 0x33, 0x91))
      else None)"

definition interpolate :: "(rat \<Rightarrow> rat) \<Rightarrow> int \<Rightarrow> int \<Rightarrow> rat \<Rightarrow> int" where
  "interpolate fl lo hi t = js_round (fl (of_int lo + fl (of_int (hi - lo) * t)))"

definition encodedColor :: "(rat \<Rightarrow> rat) \<Rightarrow> string \<Rightarrow> rat \<Rightarrow> string" where
  "encodedColor fl ty t =
     (case anchors ty of
        Some ((r1, g1, b1), (r2, g2, b2)) \<Rightarrow>
          rgb (interpolate fl r1 r2 t) (interpolate fl g1 g2 t) (interpolate fl b1 b2 t)
      | None \<Rightarrow> ''#AFBBE8'')"

section \<open>More concrete graphs\<close>

text \<open>The star with hub \<open>A\<close>, and two capped queries without search.\<close>

definition nbStar :: NetworkBuilder where
  "nbStar = constructor store4 [0, 1, 2, 3]
     [mkLink ''A'' ''B'' ''reference'', mkLink ''A'' ''C'' ''hierarchy'',
      mkLink ''A'' ''D'' ''hierarchy'']"

definition query1 :: "store \<times> FilteredGraph" where
  "query1 = buildNetwork id store4 nbStar (mkState 3) LogicOR Global"

definition capped :: "store \<times> FilteredGraph" where
  "capped = buildNetwork id store4 nb4 (mkState 3) LogicOR Global"

text \<open>The connected candidate set of a query: the ids left by isolate pruning, before the cap;
  empty when a search that matches nothing ends the query.\<close>

definition connectedCandidates ::
  "store \<Rightarrow> NetworkBuilder \<Rightarrow> NetworkBuilderState \<Rightarrow> Logic \<Rightarrow> string list" where
  "connectedCandidates h nb st lg =
     (if searched st \<and> seedsOf h nb st lg = [] then []
      else snd (candidateStage h nb st (seedsOf h nb st lg)))"

section \<open>Sets and maps\<close>

lemma set_set_add: "set (set_add s x) = insert x (set s)"
  by (auto simp: set_add_def)

lemma set_add_append: "\<exists>ys. set_add s x = s @ ys"
  by (simp add: set_add_def)

lemma distinct_set_add: "distinct s \<Longrightarrow> distinct (set_add s x)"
  by (simp add: set_add_def)

lemma length_set_add: "length s \<le> length (set_add s x)"
  by (simp add: set_add_def)

lemma set_foldl_set_add: "set (foldl set_add acc xs) = set acc \<union> set xs"
  by (induction xs arbitrary: acc) (auto simp: set_set_add)

lemma distinct_foldl_set_add: "distinct acc \<Longrightarrow> distinct (foldl set_add acc xs)"
  by (induction xs arbitrary: acc) (auto simp: distinct_set_add)

lemma foldl_set_add_distinct: "distinct (acc @ xs) \<Longrightarrow> foldl set_add acc xs = acc @ xs"
  by (induction xs arbitrary: acc) (auto simp: set_add_def)

lemma set_new_Set: "set (new_Set xs) = set xs"
  by (simp add: new_Set_def set_foldl_set_add)

lemma distinct_new_Set: "distinct (new_Set xs)"
  by (simp add: new_Set_def distinct_foldl_set_add)

lemma new_Set_distinct: "distinct xs \<Longrightarrow> new_Set xs = xs"
  using foldl_set_add_distinct [of "[]" xs] by (simp add: new_Set_def)

text \<open>The loop shared by \<open>searchNodes\<close> and \<open>filterByAttributes\<close>: a guarded \<open>add\<close>.\<close>

lemma set_foldl_cond_add:
  "set (foldl (\<lambda>m a. if P a then set_add m (k a) else m) acc xs) = set acc \<union> k ` {a \<in> set xs. P a}"
  by (induction xs arbitrary: acc) (auto simp: set_set_add)

lemma foldl_cond_add_none:
  "(\<And>a. a \<in> set xs \<Longrightarrow> \<not> P a) \<Longrightarrow> foldl (\<lambda>m a. if P a then set_add m (k a) else m) acc xs = acc"
  by (induction xs arbitrary: acc) auto

section \<open>searchNodes\<close>

lemma termFound_Nil: "termFound [] t = False"
  by (simp add: termFound_def)

lemma searchableValues_Nil: "searchableValues node [] = []"
  by (simp add: searchableValues_def)

lemma nodeMatches_OR_no_terms: "nodeMatches LogicOR [] vals = False"
  by (simp add: nodeMatches_def)

lemma nodeMatches_no_vals: "ts \<noteq> [] \<Longrightarrow> nodeMatches lg ts [] = False"
  by (cases ts) (auto simp: nodeMatches_def termFound_def list_ex_iff)

lemma nodeMatches_OR_no_vals: "nodeMatches LogicOR ts [] = False"
  by (simp add: nodeMatches_def termFound_def list_ex_iff)

lemma nodeMatches_AND_no_terms: "nodeMatches LogicAND [] vals = True"
  by (simp add: nodeMatches_def)

lemma nodeMatches_AND_OR: "ts \<noteq> [] \<Longrightarrow> nodeMatches LogicAND ts vals \<Longrightarrow> nodeMatches LogicOR ts vals"
  by (cases ts) (auto simp: nodeMatches_def)

text \<open>
  C3, as the code has it.  Under OR an empty term list or an empty field list gives the empty
  match set.  Under AND an empty field list gives the empty set when there is a term to look
  for; an empty term list matches every node (\<open>every\<close> over no terms holds), whatever the
  fields are.
\<close>

theorem searchNodes_empty_input:
  "(terms = [] \<or> flds = [] \<longrightarrow> searchNodes h nb terms flds LogicOR = []) \<and>
   (terms \<noteq> [] \<longrightarrow> searchNodes h nb terms [] LogicAND = []) \<and>
   set (searchNodes h nb [] flds LogicAND) = (\<lambda>a. id_n (h a)) ` set (allNodes nb)"
proof (intro conjI impI)
  assume "terms = [] \<or> flds = []"
  then have "\<And>a. \<not> nodeMatches LogicOR (map (\<lambda>t. trim (toLowerCase t)) terms) (searchableValues (h a) flds)"
    by (auto simp: nodeMatches_OR_no_terms nodeMatches_OR_no_vals searchableValues_Nil)
  then show "searchNodes h nb terms flds LogicOR = []"
    unfolding searchNodes_def Let_def by (intro foldl_cond_add_none) simp
next
  assume "terms \<noteq> []"
  then have "\<And>a. \<not> nodeMatches LogicAND (map (\<lambda>t. trim (toLowerCase t)) terms) (searchableValues (h a) [])"
    by (simp add: nodeMatches_no_vals searchableValues_Nil)
  then show "searchNodes h nb terms [] LogicAND = []"
    unfolding searchNodes_def Let_def by (intro foldl_cond_add_none) simp
next
  show "set (searchNodes h nb [] flds LogicAND) = (\<lambda>a. id_n (h a)) ` set (allNodes nb)"
    unfolding searchNodes_def Let_def set_foldl_cond_add
    by (simp add: nodeMatches_AND_no_terms)
qed

theorem searchNodes_empty_input_witness:
  "searchNodes store4 nb4 [] [''id''] LogicOR = [] \<and>
   searchNodes store4 nb4 [''a''] [] LogicOR = [] \<and>
   searchNodes store4 nb4 [''a''] [] LogicAND = [] \<and>
   set (searchNodes store4 nb4 [] [''id''] LogicAND) = (\<lambda>a. id_n (store4 a)) ` set (allNodes nb4)"
  using searchNodes_empty_input [of "[]" "[''id'']" store4 nb4]
    searchNodes_empty_input [of "[''a'']" "[]" store4 nb4]
  by simp

text \<open>C3 as stated fails: AND logic with no terms returns all four nodes of the example.\<close>

theorem searchNodes_empty_terms_AND_counterexample:
  "searchNodes store4 nb4 [] [''id''] LogicAND = [''A'', ''B'', ''C'', ''D'']"
  by code_simp

text \<open>
  C7, as the code has it: for a non-empty term list, what AND logic matches is matched
  under OR logic too.
\<close>

theorem searchNodes_AND_subset_OR:
  "terms \<noteq> [] \<Longrightarrow>
   set (searchNodes h nb terms flds LogicAND) \<subseteq> set (searchNodes h nb terms flds LogicOR)"
  unfolding searchNodes_def Let_def set_foldl_cond_add
  using nodeMatches_AND_OR [of "map (\<lambda>t. trim (toLowerCase t)) terms"] by auto

theorem searchNodes_AND_subset_OR_witness:
  "[''a''] \<noteq> ([] :: string list) \<and>
   set (searchNodes store4 nb4 [''a''] [''id''] LogicAND)
     \<subseteq> set (searchNodes store4 nb4 [''a''] [''id''] LogicOR)"
  using searchNodes_AND_subset_OR [of "[''a'']" store4 nb4 "[''id'']"] by simp

text \<open>C7 as stated fails for the empty term list: AND matches \<open>A\<close>, OR matches nothing.\<close>

theorem searchNodes_AND_not_subset_OR_counterexample:
  "\<not> set (searchNodes store4 nb4 [] [''id''] LogicAND)
       \<subseteq> set (searchNodes store4 nb4 [] [''id''] LogicOR)"
proof -
  have a: "searchNodes store4 nb4 [] [''id''] LogicAND = [''A'', ''B'', ''C'', ''D'']"
    by code_simp
  have b: "searchNodes store4 nb4 [] [''id''] LogicOR = []"
    by code_simp
  show ?thesis unfolding a b by simp
qed

section \<open>buildNetwork: the filter-state fields it reads\<close>

text \<open>
  C8: two filter states that agree on every field but \<open>allowedTitles\<close> and
  \<open>allowedSections\<close> give the same store and the same FilteredGraph.
\<close>

theorem buildNetwork_ignores_titles_sections:
  assumes "searchTerms st' = searchTerms st" "searchFields st' = searchFields st"
    "allowedNodeTypes st' = allowedNodeTypes st" "allowedEdgeTypes st' = allowedEdgeTypes st"
    "seedNodeIds st' = seedNodeIds st" "expansionDepth st' = expansionDepth st"
    "maxNodesPerExpansion st' = maxNodesPerExpansion st" "maxTotalNodes st' = maxTotalNodes st"
  shows "buildNetwork fl h nb st' lg md = buildNetwork fl h nb st lg md"
  unfolding buildNetwork_def seedsOf_def searched_def candidateStage_def expandedCandidates_def
    typeFiltered_def seedTypeOk_def candidateLinksOf_def edgeTypeMatch_def Let_def
  by (simp only: assms)

theorem buildNetwork_ignores_titles_sections_witness:
  "allowedTitles titledState \<noteq> allowedTitles (mkState 3) \<and>
   allowedSections titledState \<noteq> allowedSections (mkState 3) \<and>
   buildNetwork id store4 nb4 titledState LogicOR Global =
   buildNetwork id store4 nb4 (mkState 3) LogicOR Global"
  using buildNetwork_ignores_titles_sections [of titledState "mkState 3" id store4 nb4 LogicOR Global]
  by (simp add: titledState_def mkState_def)

section \<open>expandFromSeeds\<close>

lemma visitNeighbor_grows:
  "length (fst s) \<le> length (fst (visitNeighbor s n)) \<and>
   set (fst s) \<subseteq> set (fst (visitNeighbor s n)) \<and>
   (distinct (fst s) \<longrightarrow> distinct (fst (visitNeighbor s n)))"
  by (auto simp: visitNeighbor_def set_add_def)

lemma foldl_visitNeighbor_grows:
  "length (fst s) \<le> length (fst (foldl visitNeighbor s ns)) \<and>
   set (fst s) \<subseteq> set (fst (foldl visitNeighbor s ns)) \<and>
   (distinct (fst s) \<longrightarrow> distinct (fst (foldl visitNeighbor s ns)))"
proof (induction ns arbitrary: s)
  case Nil
  show ?case by simp
next
  case (Cons n ns)
  from Cons.IH [of "visitNeighbor s n"] visitNeighbor_grows [of s n]
  show ?case by (simp del: fst_conv) (meson order_trans)
qed

lemma foldl_layer_grows:
  "length (fst s) \<le> length (fst (foldl (\<lambda>s i. foldl visitNeighbor s (g i)) s cur)) \<and>
   set (fst s) \<subseteq> set (fst (foldl (\<lambda>s i. foldl visitNeighbor s (g i)) s cur)) \<and>
   (distinct (fst s) \<longrightarrow> distinct (fst (foldl (\<lambda>s i. foldl visitNeighbor s (g i)) s cur)))"
proof (induction cur arbitrary: s)
  case Nil
  show ?case by simp
next
  case (Cons i cur)
  from Cons.IH [of "foldl visitNeighbor s (g i)"] foldl_visitNeighbor_grows [of s "g i"]
  show ?case by (simp del: fst_conv) (meson order_trans)
qed

lemma expandLayer_grows:
  "length expanded \<le> length (fst (expandLayer nb maxN allowed expanded cur)) \<and>
   set expanded \<subseteq> set (fst (expandLayer nb maxN allowed expanded cur)) \<and>
   (distinct expanded \<longrightarrow> distinct (fst (expandLayer nb maxN allowed expanded cur)))"
  unfolding expandLayer_def
  using foldl_layer_grows [of "(expanded, [])" "limitedNeighbors nb maxN allowed" cur]
  by simp

lemma expandLoop_grows:
  "set expanded \<subseteq> set (expandLoop nb maxN allowed k expanded cur) \<and>
   (distinct expanded \<longrightarrow> distinct (expandLoop nb maxN allowed k expanded cur))"
proof (induction k arbitrary: expanded cur)
  case 0
  show ?case by simp
next
  case (Suc k)
  let ?r = "expandLayer nb maxN allowed expanded cur"
  from Suc.IH [of "fst ?r" "snd ?r"] expandLayer_grows [of expanded nb maxN allowed cur]
  show ?case by (auto simp: Let_def)
qed

lemma expandLoop_Suc_length:
  "length (expandLoop nb maxN allowed k expanded cur)
     \<le> length (expandLoop nb maxN allowed (Suc k) expanded cur)"
proof (induction k arbitrary: expanded cur)
  case 0
  show ?case using expandLayer_grows [of expanded nb maxN allowed cur] by (simp add: Let_def)
next
  case (Suc k)
  let ?r = "expandLayer nb maxN allowed expanded cur"
  show ?case using Suc.IH [of "fst ?r" "snd ?r"] by (simp add: Let_def)
qed

lemma expandLoop_mono_length:
  "k \<le> k' \<Longrightarrow>
   length (expandLoop nb maxN allowed k expanded cur)
     \<le> length (expandLoop nb maxN allowed k' expanded cur)"
  by (rule lift_Suc_mono_le [of "\<lambda>k. length (expandLoop nb maxN allowed k expanded cur)"])
     (rule expandLoop_Suc_length)

text \<open>
  C9: the result of \<open>expandFromSeeds\<close> is a duplicate-free list (the \<open>Set\<close> in insertion
  order), so its length is the size of the set.  That size does not decrease when the depth
  grows, the seeds are always part of the result, and depth 0 returns exactly the seeds.
\<close>

theorem expandFromSeeds_monotone:
  "(depth \<le> depth' \<longrightarrow>
      length (expandFromSeeds nb seeds depth maxN allowed)
        \<le> length (expandFromSeeds nb seeds depth' maxN allowed)) \<and>
   distinct (expandFromSeeds nb seeds depth maxN allowed) \<and>
   set seeds \<subseteq> set (expandFromSeeds nb seeds depth maxN allowed) \<and>
   set (expandFromSeeds nb seeds 0 maxN allowed) = set seeds"
proof (intro conjI impI)
  assume "depth \<le> depth'"
  then have "nat depth \<le> nat depth'" by simp
  then show "length (expandFromSeeds nb seeds depth maxN allowed)
        \<le> length (expandFromSeeds nb seeds depth' maxN allowed)"
    unfolding expandFromSeeds_def by (rule expandLoop_mono_length)
next
  show "distinct (expandFromSeeds nb seeds depth maxN allowed)"
    unfolding expandFromSeeds_def
    using expandLoop_grows [of "new_Set seeds" nb maxN allowed "nat depth" "new_Set seeds"]
    by (simp add: distinct_new_Set)
next
  show "set seeds \<subseteq> set (expandFromSeeds nb seeds depth maxN allowed)"
    unfolding expandFromSeeds_def
    using expandLoop_grows [of "new_Set seeds" nb maxN allowed "nat depth" "new_Set seeds"]
    by (simp add: set_new_Set)
next
  show "set (expandFromSeeds nb seeds 0 maxN allowed) = set seeds"
    by (simp add: expandFromSeeds_def set_new_Set)
qed


theorem expandFromSeeds_monotone_witness:
  "expandFromSeeds nbChain [''A''] 1 0 [] = [''A'', ''B''] \<and>
   expandFromSeeds nbChain [''A''] 2 0 [] = [''A'', ''B'', ''C''] \<and>
   length (expandFromSeeds nbChain [''A''] 1 0 []) \<le> length (expandFromSeeds nbChain [''A''] 2 0 []) \<and>
   distinct (expandFromSeeds nbChain [''A''] 1 0 []) \<and>
   set [''A''] \<subseteq> set (expandFromSeeds nbChain [''A''] 1 0 []) \<and>
   set (expandFromSeeds nbChain [''A''] 0 0 []) = set [''A'']"
proof -
  have one: "expandFromSeeds nbChain [''A''] 1 0 [] = [''A'', ''B'']"
    by code_simp
  have two: "expandFromSeeds nbChain [''A''] 2 0 [] = [''A'', ''B'', ''C'']"
    by code_simp
  have le: "(1::int) \<le> 2" by simp
  from expandFromSeeds_monotone [of 1 2 nbChain "[''A'']" 0 "[]"] le one two
  show ?thesis by simp
qed

section \<open>filterByAttributes\<close>

text \<open>What the code matches when no type filter is given: with both other filters given, the
  nodes that pass the title predicate or the section predicate; with one of them empty,
  every node.\<close>

lemma filterByAttributes_both_filters:
  "titles \<noteq> [] \<Longrightarrow> sections \<noteq> [] \<Longrightarrow>
   set (filterByAttributes h nb [] titles sections) =
     (\<lambda>a. id_n (h a)) `
       {a \<in> set (allNodes nb). titlePredicate titles (h a) \<or> sectionPredicate sections (h a)}"
  unfolding filterByAttributes_def set_foldl_cond_add
  by (simp add: attributeMatch_def titleMatch_def sectionMatch_def)

lemma filterByAttributes_one_filter_empty:
  "titles = [] \<or> sections = [] \<Longrightarrow>
   set (filterByAttributes h nb [] titles sections) = (\<lambda>a. id_n (h a)) ` set (allNodes nb)"
  unfolding filterByAttributes_def set_foldl_cond_add
  by (auto simp: attributeMatch_def titleMatch_def sectionMatch_def)

text \<open>
  C2 at a failing input: no type filter, no title filter, the section filter \<open>61\<close>.  The
  entity node passes neither the title predicate nor the section predicate, and the code
  matches it all the same, because \<open>titleMatch\<close> is true for an empty title list.
\<close>

theorem filterByAttributes_sections_only_matches_all:
  "filterByAttributes storeSec nbSec [] [] [''61''] = [''S61'', ''E''] \<and>
   sectionPredicate [''61''] (storeSec 0) \<and>
   \<not> sectionPredicate [''61''] (storeSec 1) \<and>
   \<not> titlePredicate [] (storeSec 1)"
  by code_simp

section \<open>buildNetwork: nodes, links and the node maps\<close>


lemma set_alist_update: "set (AList.update k v al) \<subseteq> insert (k, v) (set al)"
  by (induction al) auto

lemma foldl_update_inv:
  "(\<And>p. p \<in> set m \<Longrightarrow> P p) \<Longrightarrow> (\<And>x. x \<in> set xs \<Longrightarrow> c x \<Longrightarrow> P (key x, x)) \<Longrightarrow>
   p \<in> set (foldl (\<lambda>m a. if c a then AList.update (key a) a m else m) m xs) \<Longrightarrow> P p"
proof (induction xs arbitrary: m)
  case Nil
  then show ?case by simp
next
  case (Cons x xs)
  let ?m = "if c x then AList.update (key x) x m else m"
  have step: "\<And>q. q \<in> set ?m \<Longrightarrow> P q"
  proof -
    fix q
    assume q: "q \<in> set ?m"
    show "P q"
    proof (cases "c x")
      case True
      with q set_alist_update [of "key x" x m] have "q = (key x, x) \<or> q \<in> set m" by auto
      then show ?thesis
      proof
        assume "q = (key x, x)"
        then show ?thesis using True Cons.prems(2) [of x] by simp
      next
        assume "q \<in> set m"
        then show ?thesis by (rule Cons.prems(1))
      qed
    next
      case False
      with q show ?thesis using Cons.prems(1) by simp
    qed
  qed
  have rest: "\<And>y. y \<in> set xs \<Longrightarrow> c y \<Longrightarrow> P (key y, y)"
    using Cons.prems(2) by simp
  from Cons.prems(3) have "p \<in> set (foldl (\<lambda>m a. if c a then AList.update (key a) a m else m) ?m xs)"
    by simp
  then show ?case using Cons.IH [of ?m, OF step rest] by blast
qed

lemma nodeMapOf_entry:
  assumes "(k, a) \<in> set (nodeMapOf h nb ids)"
  shows "id_n (h a) = k \<and> a \<in> set (allNodes nb) \<and> k \<in> set ids"
proof -
  let ?P = "\<lambda>p. id_n (h (snd p)) = fst p \<and> snd p \<in> set (allNodes nb) \<and> fst p \<in> set ids"
  have "?P (k, a)"
  proof (rule foldl_update_inv [where P = ?P and m = "[]" and xs = "allNodes nb"
        and c = "\<lambda>a. id_n (h a) \<in> set ids" and key = "\<lambda>a. id_n (h a)"])
    show "\<And>p. p \<in> set [] \<Longrightarrow> ?P p" by simp
    show "\<And>x. x \<in> set (allNodes nb) \<Longrightarrow> id_n (h x) \<in> set ids \<Longrightarrow> ?P (id_n (h x), x)" by simp
    show "(k, a) \<in> set (foldl (\<lambda>m a. if id_n (h a) \<in> set ids then AList.update (id_n (h a)) a m else m) [] (allNodes nb))"
      using assms by (simp add: nodeMapOf_def)
  qed
  then show ?thesis by simp
qed

lemma map_has_nodeMapOf:
  "map_has (nodeMapOf h nb ids) k \<Longrightarrow> k \<in> (\<lambda>a. id_n (h a)) ` set (map snd (nodeMapOf h nb ids))"
proof -
  assume "map_has (nodeMapOf h nb ids) k"
  then obtain a where ka: "(k, a) \<in> set (nodeMapOf h nb ids)"
    by (auto simp: map_has_def)
  then have "id_n (h a) = k" using nodeMapOf_entry by blast
  moreover have "a \<in> set (map snd (nodeMapOf h nb ids))" using ka by force
  ultimately show ?thesis by blast
qed

lemma nodes_of_nodeMapOf: "set (map snd (nodeMapOf h nb ids)) \<subseteq> set (allNodes nb)"
  using nodeMapOf_entry by fastforce

lemma buildNetwork_result:
  "snd (buildNetwork fl h nb st lg md) = emptyGraph \<or>
   (\<exists>ids cl. nodes (snd (buildNetwork fl h nb st lg md)) = map snd (nodeMapOf h nb ids) \<and>
      links (snd (buildNetwork fl h nb st lg md)) = linksWithin h (nodeMapOf h nb ids) cl \<and>
      cl = fst (candidateStage h nb st (seedsOf h nb st lg)) \<and>
      fst (buildNetwork fl h nb st lg md) =
        encode fl h (map snd (nodeMapOf h nb ids)) (linksWithin h (nodeMapOf h nb ids) cl))"
  unfolding buildNetwork_def Let_def by auto

lemma candidateLinks_subset: "set (fst (candidateStage h nb st seedIds)) \<subseteq> set (allLinks nb)"
  by (auto simp: candidateStage_def Let_def candidateLinksOf_def)

text \<open>
  C4 at a failing input: four nodes, the links \<open>A - B\<close> and \<open>C - D\<close>, no search, a cap of 3.
  All four nodes are connected, the cap keeps \<open>A\<close>, \<open>B\<close>, \<open>C\<close>, and the only link left is
  \<open>A - B\<close>: \<open>C\<close> is returned without a link, under either ranking mode.
\<close>

theorem buildNetwork_cap_leaves_isolate:
  "nodes (snd (buildNetwork id store4 nb4 (mkState 3) LogicOR Global)) = [0, 1, 2] \<and>
   map (\<lambda>l. (sourceId store4 l, targetId store4 l))
     (links (snd (buildNetwork id store4 nb4 (mkState 3) LogicOR Global))) = [(''A'', ''B'')] \<and>
   nodes (snd (buildNetwork id store4 nb4 (mkState 3) LogicOR Subgraph)) = [0, 1, 2] \<and>
   map (\<lambda>l. (sourceId store4 l, targetId store4 l))
     (links (snd (buildNetwork id store4 nb4 (mkState 3) LogicOR Subgraph))) = [(''A'', ''B'')] \<and>
   id_n (store4 2) = ''C''"
proof -
  have gn: "nodes (snd (buildNetwork id store4 nb4 (mkState 3) LogicOR Global)) = [0, 1, 2]"
    by code_simp
  have gl: "map (\<lambda>l. (sourceId store4 l, targetId store4 l))
     (links (snd (buildNetwork id store4 nb4 (mkState 3) LogicOR Global))) = [(''A'', ''B'')]"
    by code_simp
  have sn: "nodes (snd (buildNetwork id store4 nb4 (mkState 3) LogicOR Subgraph)) = [0, 1, 2]"
    by code_simp
  have sl: "map (\<lambda>l. (sourceId store4 l, targetId store4 l))
     (links (snd (buildNetwork id store4 nb4 (mkState 3) LogicOR Subgraph))) = [(''A'', ''B'')]"
    by code_simp
  have c: "id_n (store4 2) = ''C''" by (simp add: store4_def mkNode_def)
  from gn gl sn sl c show ?thesis by (intro conjI)
qed

text \<open>
  C6, as the code has it: every link a query returns is a base link whose two endpoints are
  ids of returned nodes, and every returned node is a base node.  So a link with an endpoint
  outside the node set is in no result.  (The constructor itself does not look at the node
  set: see the counterexample.)
\<close>

theorem buildNetwork_links_within_nodes:
  assumes "l \<in> set (links (snd (buildNetwork fl h nb st lg md)))"
  shows "l \<in> set (allLinks nb) \<and>
     sourceId h l \<in> (\<lambda>a. id_n (h a)) ` set (nodes (snd (buildNetwork fl h nb st lg md))) \<and>
     targetId h l \<in> (\<lambda>a. id_n (h a)) ` set (nodes (snd (buildNetwork fl h nb st lg md))) \<and>
     set (nodes (snd (buildNetwork fl h nb st lg md))) \<subseteq> set (allNodes nb)"
proof -
  let ?r = "snd (buildNetwork fl h nb st lg md)"
  from buildNetwork_result [of fl h nb st lg md] assms
  obtain ids cl where n: "nodes ?r = map snd (nodeMapOf h nb ids)"
    and l: "links ?r = linksWithin h (nodeMapOf h nb ids) cl"
    and cl: "cl = fst (candidateStage h nb st (seedsOf h nb st lg))"
    by (auto simp: emptyGraph_def)
  from assms l have lin: "l \<in> set cl" and s: "map_has (nodeMapOf h nb ids) (sourceId h l)"
    and t: "map_has (nodeMapOf h nb ids) (targetId h l)"
    by (auto simp: linksWithin_def)
  from lin cl candidateLinks_subset have "l \<in> set (allLinks nb)" by blast
  with map_has_nodeMapOf [OF s] map_has_nodeMapOf [OF t] nodes_of_nodeMapOf [of h nb ids] n
  show ?thesis by simp
qed



theorem buildNetwork_links_within_nodes_witness:
  "mkLink ''A'' ''B'' ''reference''
     \<in> set (links (snd (buildNetwork id store4 nbDangling (mkState 2) LogicOR Subgraph))) \<and>
   sourceId store4 (mkLink ''A'' ''B'' ''reference'')
     \<in> (\<lambda>a. id_n (store4 a)) `
         set (nodes (snd (buildNetwork id store4 nbDangling (mkState 2) LogicOR Subgraph))) \<and>
   targetId store4 (mkLink ''A'' ''B'' ''reference'')
     \<in> (\<lambda>a. id_n (store4 a)) `
         set (nodes (snd (buildNetwork id store4 nbDangling (mkState 2) LogicOR Subgraph)))"
proof -
  have l: "links (snd (buildNetwork id store4 nbDangling (mkState 2) LogicOR Subgraph))
             = [mkLink ''A'' ''B'' ''reference'']"
    by code_simp
  then have "mkLink ''A'' ''B'' ''reference''
     \<in> set (links (snd (buildNetwork id store4 nbDangling (mkState 2) LogicOR Subgraph)))"
    by simp
  from this buildNetwork_links_within_nodes [OF this] show ?thesis by simp
qed

text \<open>
  C6 as stated fails: the adjacency index has the key \<open>X\<close>, which is no node's id, and the
  two links to \<open>X\<close> change the result of global ranking from \<open>A\<close>, \<open>B\<close> to \<open>C\<close>, \<open>D\<close>.
\<close>

theorem constructor_keeps_dangling_counterexample:
  "adjacencyMap nbDangling ''X'' \<noteq> None \<and>
   ''X'' \<notin> (\<lambda>a. id_n (store4 a)) ` set (allNodes nbDangling) \<and>
   nodes (snd (buildNetwork id store4 nbDangling (mkState 2) LogicOR Global)) = [2, 3] \<and>
   nodes (snd (buildNetwork id store4 nb4 (mkState 2) LogicOR Global)) = [0, 1]"
proof -
  have a: "adjacencyMap nbDangling ''X'' \<noteq> None" by code_simp
  have b: "''X'' \<notin> (\<lambda>a. id_n (store4 a)) ` set (allNodes nbDangling)" by code_simp
  have c: "nodes (snd (buildNetwork id store4 nbDangling (mkState 2) LogicOR Global)) = [2, 3]"
    by code_simp
  have d: "nodes (snd (buildNetwork id store4 nb4 (mkState 2) LogicOR Global)) = [0, 1]"
    by code_simp
  from a b c d show ?thesis by (intro conjI)
qed

section \<open>buildNetwork: the store\<close>

lemma forEachNode_apply:
  assumes idem: "\<And>x. f (f x) = f x"
  shows "forEachNode f ns h a = (if a \<in> set ns then f (h a) else h a)"
proof -
  let ?F = "\<lambda>h' a. h'(a := f (h' a))"
  have "foldl ?F h ns a = (if a \<in> set ns then f (h a) else h a)"
  proof (induction ns arbitrary: h)
    case Nil
    show ?case by simp
  next
    case (Cons n ns)
    have "foldl ?F h (n # ns) a = foldl ?F (h(n := f (h n))) ns a"
      by (simp only: foldl_Cons)
    also have "\<dots> = (if a \<in> set ns then f ((h(n := f (h n))) a) else (h(n := f (h n))) a)"
      by (rule Cons.IH)
    also have "\<dots> = (if a \<in> set (n # ns) then f (h a) else h a)"
      by (simp add: idem)
    finally show ?case .
  qed
  then show ?thesis by (simp only: forEachNode_def)
qed

lemma setVal_idem: "setVal nd (setVal nd x) = setVal nd x"
  by (simp add: setVal_def Let_def)

lemma setColor_idem: "setColor fl mv (setColor fl mv x) = setColor fl mv x"
  by (simp add: setColor_def Let_def valOf_def)

lemma degree_get_bump: "degree_get (bumpDegree m k) i = degree_get m i + (if i = k then 1 else 0)"
  by (simp add: degree_get_def bumpDegree_def update_conv')

lemma degree_get_fold:
  "degree_get (foldl (\<lambda>m link. bumpDegree (bumpDegree m (sourceId h link)) (targetId h link)) m ls) i
     = degree_get m i + degreeIn h ls i"
  by (induction ls arbitrary: m) (auto simp: degree_get_bump degreeIn_def)

lemma degree_get_countDegrees: "degree_get (countDegrees h ls) i = degreeIn h ls i"
  by (simp add: countDegrees_def degree_get_fold) (simp add: degree_get_def)

lemma fold_max_Max: "fold max xs (x::int) = Max (insert x (set xs))"
  using Max.set_eq_fold [of x xs] by simp

lemma valOf_setVal: "valOf (setVal (countDegrees h ls) x) = sizeValue h ls (id_n x)"
  by (simp add: valOf_def setVal_def Let_def sizeValue_def degree_get_countDegrees)

lemma maxValOf_after_setVal:
  "maxValOf (forEachNode (setVal (countDegrees h ls)) ns h) ns = maxSize h ls ns"
proof -
  have "map (\<lambda>a. valOf (forEachNode (setVal (countDegrees h ls)) ns h a)) ns
          = map (\<lambda>a. sizeValue h ls (id_n (h a))) ns"
    by (simp add: forEachNode_apply [OF setVal_idem] valOf_setVal)
  then show ?thesis
    by (simp add: maxValOf_def maxSize_def fold_max_Max)
qed

lemma encode_apply:
  "encode fl h ns ls a =
     (if a \<in> set ns then setColor fl (maxSize h ls ns) (setVal (countDegrees h ls) (h a)) else h a)"
  by (simp add: encode_def Let_def maxValOf_after_setVal forEachNode_apply [OF setColor_idem]
        forEachNode_apply [OF setVal_idem])

lemma setColor_encodedColor:
  "color (setColor fl mv x) = Some (encodedColor fl (node_type x) (fl (of_int (valOf x) / of_int mv)))"
  by (simp add: setColor_def Let_def encodedColor_def anchors_def strength_def sectionColorScale_def
        entityColorScale_def conceptColorScale_def interpolate_def channel_def)

lemma encoded_fields:
  assumes "a \<in> set ns"
  shows "val (encode fl h ns ls a) = Some (sizeValue h ls (id_n (h a))) \<and>
         totalVal (encode fl h ns ls a) = Some (sizeValue h ls (id_n (h a))) \<and>
         color (encode fl h ns ls a) =
           Some (encodedColor fl (node_type (h a))
                   (fl (of_int (sizeValue h ls (id_n (h a))) / of_int (maxSize h ls ns)))) \<and>
         baseColor (encode fl h ns ls a) = color (encode fl h ns ls a)"
proof -
  let ?x = "setVal (countDegrees h ls) (h a)"
  have e: "encode fl h ns ls a = setColor fl (maxSize h ls ns) ?x"
    using assms by (simp add: encode_apply)
  have v: "valOf ?x = sizeValue h ls (id_n (h a))" by (rule valOf_setVal)
  have ty: "node_type ?x = node_type (h a)" by (simp add: setVal_def Let_def)
  have c: "color (setColor fl (maxSize h ls ns) ?x) =
      Some (encodedColor fl (node_type (h a))
                   (fl (of_int (sizeValue h ls (id_n (h a))) / of_int (maxSize h ls ns))))"
    using setColor_encodedColor [of fl "maxSize h ls ns" ?x] by (simp only: v ty)
  have vv: "val (setColor fl (maxSize h ls ns) ?x) = Some (sizeValue h ls (id_n (h a)))"
    by (simp add: setColor_def setVal_def Let_def sizeValue_def degree_get_countDegrees)
  have tv: "totalVal (setColor fl (maxSize h ls ns) ?x) = Some (sizeValue h ls (id_n (h a)))"
    by (simp add: setColor_def setVal_def Let_def sizeValue_def degree_get_countDegrees)
  have bc: "baseColor (setColor fl (maxSize h ls ns) ?x) = color (setColor fl (maxSize h ls ns) ?x)"
    by (simp add: setColor_def Let_def)
  show ?thesis unfolding e using c vv tv bc by simp
qed

lemma encode_frame:
  "encode fl h ns ls a =
     (h a)\<lparr>val := val (encode fl h ns ls a), totalVal := totalVal (encode fl h ns ls a),
           color := color (encode fl h ns ls a), baseColor := baseColor (encode fl h ns ls a)\<rparr>"
  by (cases "a \<in> set ns") (simp_all add: encode_apply setColor_def setVal_def Let_def)

lemma buildNetwork_shape:
  "buildNetwork fl h nb st lg md = (h, emptyGraph) \<or>
   (\<exists>ids tr mc. buildNetwork fl h nb st lg md =
      (encode fl h (map snd (nodeMapOf h nb ids))
         (linksWithin h (nodeMapOf h nb ids) (fst (candidateStage h nb st (seedsOf h nb st lg)))),
       \<lparr>nodes = map snd (nodeMapOf h nb ids),
        links = linksWithin h (nodeMapOf h nb ids)
                  (fst (candidateStage h nb st (seedsOf h nb st lg))),
        truncated = tr, matchedCount = mc\<rparr>))"
proof (cases "searched st \<and> seedsOf h nb st lg = []")
  case True
  then show ?thesis by (simp add: buildNetwork_def)
next
  case False
  then have "\<exists>ids tr mc. buildNetwork fl h nb st lg md =
      (encode fl h (map snd (nodeMapOf h nb ids))
         (linksWithin h (nodeMapOf h nb ids) (fst (candidateStage h nb st (seedsOf h nb st lg)))),
       \<lparr>nodes = map snd (nodeMapOf h nb ids),
        links = linksWithin h (nodeMapOf h nb ids)
                  (fst (candidateStage h nb st (seedsOf h nb st lg))),
        truncated = tr, matchedCount = mc\<rparr>)"
    unfolding buildNetwork_def Let_def by (simp only: if_not_P if_False) blast
  then show ?thesis by (rule disjI2)
qed

lemma buildNetwork_cases:
  assumes "buildNetwork fl h nb st lg md = (h', r)"
  shows "(h' = h \<and> r = emptyGraph) \<or>
   (\<exists>ids. nodes r = map snd (nodeMapOf h nb ids) \<and>
      set (links r) \<subseteq> set (allLinks nb) \<and>
      h' = encode fl h (nodes r) (links r))"
proof -
  from buildNetwork_shape [of fl h nb st lg md] show ?thesis
  proof
    assume "buildNetwork fl h nb st lg md = (h, emptyGraph)"
    with assms show ?thesis by simp
  next
    assume "\<exists>ids tr mc. buildNetwork fl h nb st lg md =
      (encode fl h (map snd (nodeMapOf h nb ids))
         (linksWithin h (nodeMapOf h nb ids) (fst (candidateStage h nb st (seedsOf h nb st lg)))),
       \<lparr>nodes = map snd (nodeMapOf h nb ids),
        links = linksWithin h (nodeMapOf h nb ids)
                  (fst (candidateStage h nb st (seedsOf h nb st lg))),
        truncated = tr, matchedCount = mc\<rparr>)"
    then obtain ids tr mc where b: "buildNetwork fl h nb st lg md =
      (encode fl h (map snd (nodeMapOf h nb ids))
         (linksWithin h (nodeMapOf h nb ids) (fst (candidateStage h nb st (seedsOf h nb st lg)))),
       \<lparr>nodes = map snd (nodeMapOf h nb ids),
        links = linksWithin h (nodeMapOf h nb ids)
                  (fst (candidateStage h nb st (seedsOf h nb st lg))),
        truncated = tr, matchedCount = mc\<rparr>)" by blast
    let ?ls = "linksWithin h (nodeMapOf h nb ids) (fst (candidateStage h nb st (seedsOf h nb st lg)))"
    from b assms have r: "r = \<lparr>nodes = map snd (nodeMapOf h nb ids), links = ?ls,
        truncated = tr, matchedCount = mc\<rparr>"
      and h': "h' = encode fl h (map snd (nodeMapOf h nb ids)) ?ls" by simp_all
    have "set ?ls \<subseteq> set (allLinks nb)"
      using candidateLinks_subset [of h nb st "seedsOf h nb st lg"] by (auto simp: linksWithin_def)
    with r h' have "nodes r = map snd (nodeMapOf h nb ids) \<and>
      set (links r) \<subseteq> set (allLinks nb) \<and> h' = encode fl h (nodes r) (links r)" by simp
    then show ?thesis by blast
  qed
qed

lemma buildNetwork_store:
  "fst (buildNetwork fl h nb st lg md) =
     encode fl h (nodes (snd (buildNetwork fl h nb st lg md)))
       (links (snd (buildNetwork fl h nb st lg md)))"
proof -
  obtain h' r where b: "buildNetwork fl h nb st lg md = (h', r)" by (cases "buildNetwork fl h nb st lg md")
  from buildNetwork_cases [OF b] have "h' = encode fl h (nodes r) (links r)"
    by (auto simp: emptyGraph_def encode_def Let_def forEachNode_def)
  with b show ?thesis by simp
qed

lemma capped_nodes: "nodes (snd capped) = [0, 1, 2]"
  by code_simp

lemma capped_links: "links (snd capped) = [mkLink ''A'' ''B'' ''reference'']"
  by code_simp

lemma query1_nodes: "nodes (snd query1) = [0, 1, 2]"
  by code_simp

lemma query1_links:
  "links (snd query1) = [mkLink ''A'' ''B'' ''reference'', mkLink ''A'' ''C'' ''hierarchy'']"
  by code_simp

lemma capped_store: "fst capped = encode id store4 (nodes (snd capped)) (links (snd capped))"
  unfolding capped_def by (rule buildNetwork_store)

lemma query1_store: "fst query1 = encode id store4 (nodes (snd query1)) (links (snd query1))"
  unfolding query1_def by (rule buildNetwork_store)

text \<open>
  C1, as the code has it.  A query changes neither the list of base nodes, nor the base
  links, nor the index (the engine record is not written at all), and it returns base node
  objects and base links.  It is not a pure query: on every node object it returns it
  assigns \<open>val\<close>, \<open>totalVal\<close>, \<open>color\<close> and \<open>baseColor\<close>; every other field of those objects
  and every node object it does not return are left as they were.
\<close>

theorem buildNetwork_frame:
  assumes "buildNetwork fl h nb st lg md = (h', r)"
  shows "set (nodes r) \<subseteq> set (allNodes nb) \<and> set (links r) \<subseteq> set (allLinks nb) \<and>
     (a \<notin> set (nodes r) \<longrightarrow> h' a = h a) \<and>
     (a \<in> set (nodes r) \<longrightarrow> val (h' a) \<noteq> None \<and> totalVal (h' a) \<noteq> None \<and>
        color (h' a) \<noteq> None \<and> baseColor (h' a) \<noteq> None) \<and>
     h' a = (h a)\<lparr>val := val (h' a), totalVal := totalVal (h' a),
                   color := color (h' a), baseColor := baseColor (h' a)\<rparr>"
proof -
  from buildNetwork_cases [OF assms] show ?thesis
  proof
    assume "h' = h \<and> r = emptyGraph"
    then show ?thesis by (simp add: emptyGraph_def)
  next
    assume "\<exists>ids. nodes r = map snd (nodeMapOf h nb ids) \<and>
      set (links r) \<subseteq> set (allLinks nb) \<and> h' = encode fl h (nodes r) (links r)"
    then obtain ids where n: "nodes r = map snd (nodeMapOf h nb ids)"
      and l: "set (links r) \<subseteq> set (allLinks nb)"
      and e: "h' = encode fl h (nodes r) (links r)" by blast
    have sub: "set (nodes r) \<subseteq> set (allNodes nb)"
      unfolding n by (rule nodes_of_nodeMapOf)
    have out: "a \<notin> set (nodes r) \<longrightarrow> h' a = h a"
      by (simp add: e encode_apply)
    have inn: "a \<in> set (nodes r) \<longrightarrow> val (h' a) \<noteq> None \<and> totalVal (h' a) \<noteq> None \<and>
        color (h' a) \<noteq> None \<and> baseColor (h' a) \<noteq> None"
      using encoded_fields [of a "nodes r" fl h "links r"] by (simp add: e)
    have fr: "h' a = (h a)\<lparr>val := val (h' a), totalVal := totalVal (h' a),
                   color := color (h' a), baseColor := baseColor (h' a)\<rparr>"
      unfolding e by (rule encode_frame)
    from sub l out inn fr show ?thesis by blast
  qed
qed

theorem buildNetwork_frame_witness:
  "0 \<in> set (nodes (snd query1)) \<and>
   set (nodes (snd query1)) \<subseteq> set (allNodes nbStar) \<and>
   set (links (snd query1)) \<subseteq> set (allLinks nbStar) \<and>
   val (fst query1 0) \<noteq> None \<and> totalVal (fst query1 0) \<noteq> None \<and>
   color (fst query1 0) \<noteq> None \<and> baseColor (fst query1 0) \<noteq> None \<and>
   fst query1 0 = (store4 0)\<lparr>val := val (fst query1 0), totalVal := totalVal (fst query1 0),
                     color := color (fst query1 0), baseColor := baseColor (fst query1 0)\<rparr>"
proof -
  have b: "buildNetwork id store4 nbStar (mkState 3) LogicOR Global = (fst query1, snd query1)"
    by (simp add: query1_def)
  have m: "0 \<in> set (nodes (snd query1))" by (simp add: query1_nodes)
  note f = buildNetwork_frame [OF b, of 0]
  from f have f1: "set (nodes (snd query1)) \<subseteq> set (allNodes nbStar)"
    by (rule conjunct1)
  from f have f2: "set (links (snd query1)) \<subseteq> set (allLinks nbStar)"
    by (rule conjunct2 [THEN conjunct1])
  from f have "0 \<in> set (nodes (snd query1)) \<longrightarrow> val (fst query1 0) \<noteq> None \<and>
      totalVal (fst query1 0) \<noteq> None \<and> color (fst query1 0) \<noteq> None \<and>
      baseColor (fst query1 0) \<noteq> None"
    by (rule conjunct2 [THEN conjunct2, THEN conjunct2, THEN conjunct1])
  with m have f4: "val (fst query1 0) \<noteq> None \<and>
      totalVal (fst query1 0) \<noteq> None \<and> color (fst query1 0) \<noteq> None \<and>
      baseColor (fst query1 0) \<noteq> None" by (rule rev_mp)
  from f have f5: "fst query1 0 =
      (store4 0)\<lparr>val := val (fst query1 0), totalVal := totalVal (fst query1 0),
                  color := color (fst query1 0), baseColor := baseColor (fst query1 0)\<rparr>"
    by (rule conjunct2 [THEN conjunct2, THEN conjunct2, THEN conjunct2])
  show ?thesis
    by (rule conjI [OF m conjI [OF f1 conjI [OF f2]]], insert f4 f5, (elim conjE), (intro conjI), assumption+)
qed

text \<open>C1 as stated fails: base node \<open>A\<close> has no \<open>val\<close> before the query and \<open>val = 2\<close>
  after it.\<close>

theorem buildNetwork_mutates_base_counterexample:
  "val (store4 0) = None \<and> 0 \<in> set (allNodes nbStar) \<and> 0 \<in> set (nodes (snd query1)) \<and>
   val (fst query1 0) = Some 2"
proof -
  have a: "val (store4 0) = None" by (simp add: store4_def mkNode_def)
  have b: "0 \<in> set (allNodes nbStar)" by (simp add: nbStar_def constructor_def)
  have c: "0 \<in> set (nodes (snd query1))" by (simp add: query1_nodes)
  have "sizeValue store4 (links (snd query1)) (id_n (store4 0)) = 2"
    unfolding query1_links
    by (simp add: sizeValue_def degreeIn_def sourceId_def targetId_def mkLink_def store4_def mkNode_def)
  then have d: "val (fst query1 0) = Some 2"
    using encoded_fields [OF c, of id store4 "links (snd query1)"] by (simp add: query1_store)
  from a b c d show ?thesis by simp
qed

text \<open>
  C10, as the code has it.  For every returned node the size value and its mirror are the
  node's local degree in the returned links when that is positive, and 1 when the node has
  no returned link; the colour and the base colour are the interpolation between the
  anchors of the node type at \<open>t\<close> = size value / greatest size value over the returned
  nodes (at least 1), each channel rounded; a node of any other type gets the fixed colour.
\<close>

theorem buildNetwork_encoding:
  assumes "buildNetwork fl h nb st lg md = (h', r)" and "a \<in> set (nodes r)"
  shows "val (h' a) = Some (sizeValue h (links r) (id_n (h a))) \<and>
     totalVal (h' a) = val (h' a) \<and>
     color (h' a) =
       Some (encodedColor fl (node_type (h a))
               (fl (of_int (sizeValue h (links r) (id_n (h a)))
                      / of_int (maxSize h (links r) (nodes r))))) \<and>
     baseColor (h' a) = color (h' a)"
proof -
  from buildNetwork_cases [OF assms(1)] assms(2)
  have e: "h' = encode fl h (nodes r) (links r)"
    by (auto simp: emptyGraph_def)
  show ?thesis
    unfolding e using encoded_fields [OF assms(2), of fl h "links r"] by simp
qed

theorem buildNetwork_encoding_witness:
  "0 \<in> set (nodes (snd capped)) \<and>
   (val (fst capped 0) = Some (sizeValue store4 (links (snd capped)) (id_n (store4 0))) \<and>
    totalVal (fst capped 0) = val (fst capped 0) \<and>
    color (fst capped 0) =
       Some (encodedColor id (node_type (store4 0))
               (id (of_int (sizeValue store4 (links (snd capped)) (id_n (store4 0)))
                      / of_int (maxSize store4 (links (snd capped)) (nodes (snd capped)))))) \<and>
    baseColor (fst capped 0) = color (fst capped 0))"
proof -
  have b: "buildNetwork id store4 nb4 (mkState 3) LogicOR Global = (fst capped, snd capped)"
    by (simp add: capped_def)
  have m: "0 \<in> set (nodes (snd capped))" by (simp add: capped_nodes)
  show ?thesis by (rule conjI [OF m buildNetwork_encoding [OF b m]])
qed

text \<open>
  C10 as stated fails: with the cap of 3, node \<open>C\<close> is returned without a link.  Its local
  degree is 0, its size value is 1, and its colour is the high anchor (\<open>t = 1\<close>), not the low
  anchor that \<open>t = 0\<close> gives.
\<close>

theorem buildNetwork_size_of_linkless_node_counterexample:
  "2 \<in> set (nodes (snd capped)) \<and>
   degreeIn store4 (links (snd capped)) (id_n (store4 2)) = 0 \<and>
   val (fst capped 2) = Some 1 \<and>
   color (fst capped 2) = Some ''rgb(65, 55, 143)'' \<and>
   encodedColor id ''section'' 0 = ''rgb(155, 150, 201)''"
proof -
  have a: "2 \<in> set (nodes (snd capped))" by (simp add: capped_nodes)
  have d: "degreeIn store4 (links (snd capped)) (id_n (store4 2)) = 0"
    unfolding capped_links
    by (simp add: degreeIn_def sourceId_def targetId_def mkLink_def store4_def mkNode_def)
  then have sv: "sizeValue store4 (links (snd capped)) (id_n (store4 2)) = 1"
    by (simp add: sizeValue_def)
  have ms: "maxSize store4 (links (snd capped)) (nodes (snd capped)) = 1"
    unfolding capped_links capped_nodes
    by (simp add: maxSize_def sizeValue_def degreeIn_def sourceId_def targetId_def mkLink_def
          store4_def mkNode_def)
  have ty: "node_type (store4 2) = ''section''" by (simp add: store4_def mkNode_def)
  have hi: "encodedColor id ''section'' 1 = ''rgb(65, 55, 143)''" by code_simp
  have lo: "encodedColor id ''section'' 0 = ''rgb(155, 150, 201)''" by code_simp
  from encoded_fields [OF a, of id store4 "links (snd capped)"]
  have "val (fst capped 2) = Some 1 \<and> color (fst capped 2) = Some ''rgb(65, 55, 143)''"
    by (simp add: capped_store sv ms ty hi)
  with a d lo show ?thesis by simp
qed

section \<open>buildNetwork: the cap\<close>

lemma keys_alist_update: "map fst (AList.update k v m) = set_add (map fst m) k"
  by (simp add: update_keys set_add_def)

lemma keys_fold_cond_update:
  "map fst (foldl (\<lambda>m a. if c (key a) then AList.update (key a) a m else m) m xs)
     = foldl set_add (map fst m) (filter c (map key xs))"
  by (induction xs arbitrary: m) (simp_all add: keys_alist_update)

lemma keys_nodeMapOf:
  "map fst (nodeMapOf h nb ids)
     = new_Set (filter (\<lambda>i. i \<in> set ids) (map (\<lambda>a. id_n (h a)) (allNodes nb)))"
  unfolding nodeMapOf_def new_Set_def
  using keys_fold_cond_update [of "\<lambda>i. i \<in> set ids" "\<lambda>a. id_n (h a)" "[]" "allNodes nb"]
  by simp

lemma length_nodeMapOf:
  assumes "distinct ids" and "set ids \<subseteq> (\<lambda>a. id_n (h a)) ` set (allNodes nb)"
  shows "length (nodeMapOf h nb ids) = length ids"
proof -
  let ?ks = "new_Set (filter (\<lambda>i. i \<in> set ids) (map (\<lambda>a. id_n (h a)) (allNodes nb)))"
  have "set ?ks = set ids" using assms(2) by (auto simp: set_new_Set)
  moreover have "distinct ?ks" by (rule distinct_new_Set)
  ultimately have "length ?ks = length ids"
    using assms(1) distinct_card [of ?ks] distinct_card [of ids] by simp
  moreover have "length (nodeMapOf h nb ids) = length (map fst (nodeMapOf h nb ids))" by simp
  ultimately show ?thesis by (simp only: keys_nodeMapOf)
qed

lemma keys_fold_update:
  "distinct (map fst m @ ids) \<Longrightarrow>
   map fst (foldl (\<lambda>m i. AList.update i (f i) m) m ids) = map fst m @ ids"
proof (induction ids arbitrary: m)
  case Nil
  show ?case by simp
next
  case (Cons i ids)
  from Cons.prems have ni: "i \<notin> set (map fst m)" by simp
  then have k: "map fst (AList.update i (f i) m) = map fst m @ [i]"
    by (simp add: update_keys)
  from Cons.prems have "distinct (map fst (AList.update i (f i) m) @ ids)"
    unfolding k by simp
  from Cons.IH [OF this] show ?case unfolding k by simp
qed

lemma set_nodesWithEdges_fold:
  "set (foldl (\<lambda>s link. set_add (set_add s (sourceId h link)) (targetId h link)) s ls)
     = set s \<union> sourceId h ` set ls \<union> targetId h ` set ls"
  by (induction ls arbitrary: s) (auto simp: set_set_add)

lemma set_nodesWithEdgesOf:
  "set (nodesWithEdgesOf h ls) = sourceId h ` set ls \<union> targetId h ` set ls"
  by (simp add: nodesWithEdgesOf_def set_nodesWithEdges_fold)

lemma keys_bumpDegree: "fst ` set (bumpDegree m k) = insert k (fst ` set m)"
  by (simp add: bumpDegree_def dom_update)

lemma keys_countDegrees_fold:
  "fst ` set (foldl (\<lambda>m link. bumpDegree (bumpDegree m (sourceId h link)) (targetId h link)) m ls)
     = fst ` set m \<union> sourceId h ` set ls \<union> targetId h ` set ls"
  by (induction ls arbitrary: m) (auto simp: keys_bumpDegree)

lemma keys_countDegrees:
  "fst ` set (countDegrees h ls) = sourceId h ` set ls \<union> targetId h ` set ls"
  by (simp add: countDegrees_def keys_countDegrees_fold)

lemma connectedOf_props:
  "distinct (connectedOf h cn nwe) \<and>
   set (connectedOf h cn nwe) \<subseteq> (\<lambda>a. id_n (h a)) ` set cn \<and>
   set (connectedOf h cn nwe) \<subseteq> set nwe"
  by (auto simp: connectedOf_def distinct_new_Set set_new_Set)

lemma candidateStage_props:
  "distinct (snd (candidateStage h nb st seedIds)) \<and>
   set (snd (candidateStage h nb st seedIds)) \<subseteq> (\<lambda>a. id_n (h a)) ` set (allNodes nb) \<and>
   (\<forall>i \<in> set (snd (candidateStage h nb st seedIds)).
      map_has (countDegrees h (fst (candidateStage h nb st seedIds))) i)"
proof -
  let ?m = "nodeMapOf h nb (typeFiltered h nb st seedIds (expandedCandidates h nb st seedIds))"
  let ?cl = "candidateLinksOf h nb st ?m"
  let ?conn = "connectedOf h (map snd ?m) (nodesWithEdgesOf h ?cl)"
  have cs: "candidateStage h nb st seedIds = (?cl, ?conn)"
    by (simp add: candidateStage_def Let_def)
  note p = connectedOf_props [of h "map snd ?m" "nodesWithEdgesOf h ?cl"]
  have a: "distinct ?conn" using p by blast
  have "set ?conn \<subseteq> (\<lambda>a. id_n (h a)) ` set (map snd ?m)" using p by blast
  with nodes_of_nodeMapOf [of h nb] have b: "set ?conn \<subseteq> (\<lambda>a. id_n (h a)) ` set (allNodes nb)"
    by blast
  have "set ?conn \<subseteq> set (nodesWithEdgesOf h ?cl)" using p by blast
  then have c: "\<forall>i \<in> set ?conn. map_has (countDegrees h ?cl) i"
    by (auto simp: map_has_def keys_countDegrees set_nodesWithEdgesOf)
  from a b c show ?thesis unfolding cs by simp
qed

lemma distinct_keys_sort:
  "distinct (map fst m) \<Longrightarrow> distinct (map fst (sort_key k m))"
  by (simp add: distinct_map)

lemma selectTop_props:
  assumes "distinct ids" and "0 \<le> n" and "int (length ids) > n"
  shows "distinct (selectTopNodesByDegree nb ids n) \<and>
         length (selectTopNodesByDegree nb ids n) = nat n \<and>
         set (selectTopNodesByDegree nb ids n) \<subseteq> set ids"
proof -
  let ?nd = "foldl (\<lambda>m nodeId. AList.update nodeId (length (adj_get (adjacencyMap nb) nodeId)) m) [] ids"
  let ?sorted = "sort_key (\<lambda>e. - int (snd e)) ?nd"
  have k: "map fst ?nd = ids"
    using keys_fold_update [of "[]" ids "\<lambda>i. length (adj_get (adjacencyMap nb) i)"] assms(1) by simp
  then have d: "distinct (map fst ?sorted)" using assms(1) by (simp add: distinct_keys_sort)
  have "length (map fst ?nd) = length ids" by (simp only: k)
  then have len: "length ?sorted = length ids" by simp
  have "set (map fst ?nd) = set ids" by (simp only: k)
  then have st: "set (map fst ?sorted) = set ids" by simp
  have top: "selectTopNodesByDegree nb ids n = take (nat n) (map fst ?sorted)"
    using assms(2) by (simp add: selectTopNodesByDegree_def Let_def slice0_def take_map)
  have "distinct (take (nat n) (map fst ?sorted))" using d by (rule distinct_take)
  moreover have "length (take (nat n) (map fst ?sorted)) = nat n"
    using len assms(3) by simp
  moreover have "set (take (nat n) (map fst ?sorted)) \<subseteq> set ids"
    using set_take_subset [of "nat n" "map fst ?sorted"] unfolding st .
  ultimately show ?thesis unfolding top by blast
qed

lemma subgraphTop_props:
  assumes "distinct ids" and "0 \<le> n" and "int (length ids) > n"
    and "\<forall>i \<in> set ids. map_has (countDegrees h cl) i"
  shows "distinct (subgraphTop h cl ids n) \<and>
         length (subgraphTop h cl ids n) = nat n \<and>
         set (subgraphTop h cl ids n) \<subseteq> set ids"
proof -
  let ?sorted = "sort_key (\<lambda>i. - int (degree_get (countDegrees h cl) i)) ids"
  have f: "filter (map_has (countDegrees h cl)) ids = ids"
    using assms(4) by (simp add: filter_id_conv)
  have top: "subgraphTop h cl ids n = take (nat n) ?sorted"
    using assms(2) by (simp add: subgraphTop_def Let_def slice0_def f)
  have "distinct (take (nat n) ?sorted)" using assms(1) by simp
  moreover have "length (take (nat n) ?sorted) = nat n" using assms(3) by simp
  moreover have "set (take (nat n) ?sorted) \<subseteq> set ids"
    using set_take_subset [of "nat n" ?sorted] by simp
  ultimately show ?thesis unfolding top by blast
qed

lemma finalNodeIdsOf_truncated:
  assumes "distinct ids" and "0 \<le> n" and "int (length ids) > n"
    and "\<forall>i \<in> set ids. map_has (countDegrees h cl) i"
  shows "distinct (finalNodeIdsOf h nb md n cl ids) \<and>
         length (finalNodeIdsOf h nb md n cl ids) = nat n \<and>
         set (finalNodeIdsOf h nb md n cl ids) \<subseteq> set ids"
proof (cases "md = Subgraph")
  case True
  from subgraphTop_props [OF assms] have p: "distinct (subgraphTop h cl ids n)"
    "length (subgraphTop h cl ids n) = nat n" "set (subgraphTop h cl ids n) \<subseteq> set ids"
    by blast+
  have "finalNodeIdsOf h nb md n cl ids = subgraphTop h cl ids n"
    using True assms(3) p(1) by (simp add: finalNodeIdsOf_def new_Set_distinct)
  with p show ?thesis by simp
next
  case False
  from selectTop_props [OF assms(1,2,3), of nb] have p: "distinct (selectTopNodesByDegree nb ids n)"
    "length (selectTopNodesByDegree nb ids n) = nat n" "set (selectTopNodesByDegree nb ids n) \<subseteq> set ids"
    by blast+
  have "finalNodeIdsOf h nb md n cl ids = selectTopNodesByDegree nb ids n"
    using False assms(3) p(1) by (simp add: finalNodeIdsOf_def new_Set_distinct)
  with p show ?thesis by simp
qed

lemma buildNetwork_snd:
  "snd (buildNetwork fl h nb st lg md) =
     (if searched st \<and> seedsOf h nb st lg = [] then emptyGraph
      else \<lparr>nodes = map snd (nodeMapOf h nb
                (finalNodeIdsOf h nb md (maxTotalNodes st)
                   (fst (candidateStage h nb st (seedsOf h nb st lg)))
                   (snd (candidateStage h nb st (seedsOf h nb st lg))))),
            links = linksWithin h (nodeMapOf h nb
                (finalNodeIdsOf h nb md (maxTotalNodes st)
                   (fst (candidateStage h nb st (seedsOf h nb st lg)))
                   (snd (candidateStage h nb st (seedsOf h nb st lg)))))
                (fst (candidateStage h nb st (seedsOf h nb st lg))),
            truncated = (int (length (snd (candidateStage h nb st (seedsOf h nb st lg))))
                           > maxTotalNodes st),
            matchedCount = int (length (snd (candidateStage h nb st (seedsOf h nb st lg))))\<rparr>)"
proof (cases "searched st \<and> seedsOf h nb st lg = []")
  case True
  then show ?thesis unfolding buildNetwork_def Let_def by (simp only: if_P if_True snd_conv)
next
  case False
  then show ?thesis unfolding buildNetwork_def Let_def by (simp only: if_not_P if_False snd_conv)
qed

text \<open>
  C5, for a cap that is not negative (the interface takes a positive whole number):
  \<open>truncated\<close> is exactly \<open>matchedCount > maxTotalNodes\<close>, \<open>matchedCount\<close> is the size of the
  connected candidate set, and a truncated result has exactly
  \<open>min maxTotalNodes matchedCount\<close> nodes, whatever the ranking mode.
\<close>

theorem buildNetwork_truncation:
  assumes cap: "0 \<le> maxTotalNodes st" and b: "buildNetwork fl h nb st lg md = (h', r)"
  shows "truncated r = (matchedCount r > maxTotalNodes st) \<and>
         matchedCount r = int (card (set (connectedCandidates h nb st lg))) \<and>
         (truncated r \<longrightarrow> int (length (nodes r)) = min (maxTotalNodes st) (matchedCount r))"
proof (cases "searched st \<and> seedsOf h nb st lg = []")
  case True
  have "snd (buildNetwork fl h nb st lg md) = emptyGraph"
    using True by (simp only: buildNetwork_snd if_P if_True)
  with b have r: "r = emptyGraph" by simp
  have c: "connectedCandidates h nb st lg = []"
    unfolding connectedCandidates_def using True by (simp only: if_P if_True)
  show ?thesis using cap by (simp add: r c emptyGraph_def)
next
  case False
  let ?cl = "fst (candidateStage h nb st (seedsOf h nb st lg))"
  let ?conn = "snd (candidateStage h nb st (seedsOf h nb st lg))"
  let ?final = "finalNodeIdsOf h nb md (maxTotalNodes st) ?cl ?conn"
  have "snd (buildNetwork fl h nb st lg md) = \<lparr>nodes = map snd (nodeMapOf h nb ?final),
                links = linksWithin h (nodeMapOf h nb ?final) ?cl,
                truncated = (int (length ?conn) > maxTotalNodes st),
                matchedCount = int (length ?conn)\<rparr>"
    using False by (simp only: buildNetwork_snd if_not_P if_False)
  with b have r: "r = \<lparr>nodes = map snd (nodeMapOf h nb ?final),
                links = linksWithin h (nodeMapOf h nb ?final) ?cl,
                truncated = (int (length ?conn) > maxTotalNodes st),
                matchedCount = int (length ?conn)\<rparr>"
    by simp
  note p = candidateStage_props [of h nb st "seedsOf h nb st lg"]
  have d: "distinct ?conn" using p by blast
  have sub: "set ?conn \<subseteq> (\<lambda>a. id_n (h a)) ` set (allNodes nb)" using p by blast
  have keys: "\<forall>i \<in> set ?conn. map_has (countDegrees h ?cl) i" using p by blast
  have t: "truncated r = (matchedCount r > maxTotalNodes st)" by (simp add: r)
  have "connectedCandidates h nb st lg = ?conn"
    unfolding connectedCandidates_def using False by (simp only: if_not_P if_False)
  then have m: "matchedCount r = int (card (set (connectedCandidates h nb st lg)))"
    using d by (simp add: r distinct_card)
  have n: "truncated r \<longrightarrow> int (length (nodes r)) = min (maxTotalNodes st) (matchedCount r)"
  proof
    assume "truncated r"
    then have gt: "int (length ?conn) > maxTotalNodes st" by (simp add: r)
    from finalNodeIdsOf_truncated [OF d cap gt keys, of nb md]
    have fd: "distinct ?final" and fl: "length ?final = nat (maxTotalNodes st)"
      and fs: "set ?final \<subseteq> set ?conn" by blast+
    from fs sub have "set ?final \<subseteq> (\<lambda>a. id_n (h a)) ` set (allNodes nb)" by blast
    from length_nodeMapOf [OF fd this] fl
    have "length (nodes r) = nat (maxTotalNodes st)" by (simp add: r)
    with cap gt show "int (length (nodes r)) = min (maxTotalNodes st) (matchedCount r)"
      by (simp add: r)
  qed
  from t m n show ?thesis by blast
qed


theorem buildNetwork_truncation_witness:
  "0 \<le> maxTotalNodes (mkState 3) \<and> truncated (snd capped) \<and>
   matchedCount (snd capped) > maxTotalNodes (mkState 3) \<and>
   matchedCount (snd capped) = int (card (set (connectedCandidates store4 nb4 (mkState 3) LogicOR))) \<and>
   int (length (nodes (snd capped))) = min (maxTotalNodes (mkState 3)) (matchedCount (snd capped)) \<and>
   length (nodes (snd capped)) = 3"
proof -
  have cap: "0 \<le> maxTotalNodes (mkState 3)" by (simp add: mkState_def)
  have b: "buildNetwork id store4 nb4 (mkState 3) LogicOR Global = (fst capped, snd capped)"
    by (simp add: capped_def)
  have t: "truncated (snd capped)" by code_simp
  note th = buildNetwork_truncation [OF cap b]
  from th t have gt: "matchedCount (snd capped) > maxTotalNodes (mkState 3)" by simp
  from th have mc: "matchedCount (snd capped)
      = int (card (set (connectedCandidates store4 nb4 (mkState 3) LogicOR)))"
    by (rule conjunct2 [THEN conjunct1])
  from th t have n: "int (length (nodes (snd capped)))
      = min (maxTotalNodes (mkState 3)) (matchedCount (snd capped))" by simp
  have l: "length (nodes (snd capped)) = 3" by (simp add: capped_nodes)
  from cap t gt mc n l show ?thesis by (intro conjI)
qed

section \<open>buildNetwork: isolate pruning without the cap\<close>

lemma map_has_nodeMapOf_iff:
  "map_has (nodeMapOf h nb ids) k \<longleftrightarrow> k \<in> set ids \<and> k \<in> (\<lambda>a. id_n (h a)) ` set (allNodes nb)"
proof -
  have "fst ` set (nodeMapOf h nb ids) = set (map fst (nodeMapOf h nb ids))" by simp
  also have "\<dots> = {i \<in> (\<lambda>a. id_n (h a)) ` set (allNodes nb). i \<in> set ids}"
    by (simp only: keys_nodeMapOf set_new_Set) auto
  finally show ?thesis by (auto simp: map_has_def)
qed

lemma candidateStage_links:
  assumes "l \<in> set (fst (candidateStage h nb st s))"
  shows "sourceId h l \<in> set (snd (candidateStage h nb st s)) \<and>
         targetId h l \<in> set (snd (candidateStage h nb st s))"
proof -
  let ?m = "nodeMapOf h nb (typeFiltered h nb st s (expandedCandidates h nb st s))"
  let ?cl = "candidateLinksOf h nb st ?m"
  let ?conn = "connectedOf h (map snd ?m) (nodesWithEdgesOf h ?cl)"
  have cs: "candidateStage h nb st s = (?cl, ?conn)"
    by (simp add: candidateStage_def Let_def)
  from assms have l: "l \<in> set ?cl" by (simp add: cs)
  have inset: "\<And>e. map_has ?m e \<Longrightarrow> e \<in> set (nodesWithEdgesOf h ?cl) \<Longrightarrow> e \<in> set ?conn"
  proof -
    fix e
    assume "map_has ?m e" and nwe: "e \<in> set (nodesWithEdgesOf h ?cl)"
    then obtain a where ea: "(e, a) \<in> set ?m" by (auto simp: map_has_def)
    then have "id_n (h a) = e" using nodeMapOf_entry by blast
    moreover from ea have "a \<in> set (map snd ?m)" by force
    ultimately show "e \<in> set ?conn"
      using nwe by (auto simp: connectedOf_def set_new_Set)
  qed
  from l have "map_has ?m (sourceId h l)" "map_has ?m (targetId h l)"
    by (simp_all add: candidateLinksOf_def)
  moreover from l have "sourceId h l \<in> set (nodesWithEdgesOf h ?cl)"
    "targetId h l \<in> set (nodesWithEdgesOf h ?cl)"
    by (simp_all add: set_nodesWithEdgesOf)
  ultimately show ?thesis unfolding cs using inset by simp
qed

lemma candidateStage_connected:
  assumes "k \<in> set (snd (candidateStage h nb st s))"
  shows "\<exists>l \<in> set (fst (candidateStage h nb st s)). sourceId h l = k \<or> targetId h l = k"
proof -
  let ?m = "nodeMapOf h nb (typeFiltered h nb st s (expandedCandidates h nb st s))"
  let ?cl = "candidateLinksOf h nb st ?m"
  have cs: "candidateStage h nb st s = (?cl, connectedOf h (map snd ?m) (nodesWithEdgesOf h ?cl))"
    by (simp add: candidateStage_def Let_def)
  from assms connectedOf_props [of h "map snd ?m" "nodesWithEdgesOf h ?cl"]
  have "k \<in> set (nodesWithEdgesOf h ?cl)" unfolding cs by auto
  then show ?thesis unfolding cs by (auto simp: set_nodesWithEdgesOf)
qed

text \<open>
  Where the cap does not cut, isolate pruning holds for the result: every returned node is an
  end of a returned link.
\<close>

lemma buildNetwork_uncapped_no_isolate:
  assumes b: "buildNetwork fl h nb st lg md = (h', r)" and nt: "\<not> truncated r"
    and a: "a \<in> set (nodes r)"
  shows "\<exists>l \<in> set (links r). sourceId h l = id_n (h a) \<or> targetId h l = id_n (h a)"
proof (cases "searched st \<and> seedsOf h nb st lg = []")
  case True
  have "snd (buildNetwork fl h nb st lg md) = emptyGraph"
    using True by (simp only: buildNetwork_snd if_P if_True)
  with b a show ?thesis by (simp add: emptyGraph_def)
next
  case False
  let ?cs = "candidateStage h nb st (seedsOf h nb st lg)"
  let ?final = "finalNodeIdsOf h nb md (maxTotalNodes st) (fst ?cs) (snd ?cs)"
  have "snd (buildNetwork fl h nb st lg md) = \<lparr>nodes = map snd (nodeMapOf h nb ?final),
                links = linksWithin h (nodeMapOf h nb ?final) (fst ?cs),
                truncated = (int (length (snd ?cs)) > maxTotalNodes st),
                matchedCount = int (length (snd ?cs))\<rparr>"
    using False by (simp only: buildNetwork_snd if_not_P if_False)
  with b have r: "r = \<lparr>nodes = map snd (nodeMapOf h nb ?final),
                links = linksWithin h (nodeMapOf h nb ?final) (fst ?cs),
                truncated = (int (length (snd ?cs)) > maxTotalNodes st),
                matchedCount = int (length (snd ?cs))\<rparr>"
    by simp
  from nt have "\<not> int (length (snd ?cs)) > maxTotalNodes st" by (simp add: r)
  then have fin: "?final = snd ?cs" by (simp add: finalNodeIdsOf_def)
  from a obtain k where ka: "(k, a) \<in> set (nodeMapOf h nb (snd ?cs))"
    unfolding r fin by auto
  then have k: "id_n (h a) = k" and kc: "k \<in> set (snd ?cs)"
    using nodeMapOf_entry by blast+
  from candidateStage_connected [OF kc]
  obtain l where l: "l \<in> set (fst ?cs)" and e: "sourceId h l = k \<or> targetId h l = k" by blast
  note ends = candidateStage_links [OF l]
  have sub: "set (snd ?cs) \<subseteq> (\<lambda>a. id_n (h a)) ` set (allNodes nb)"
    using candidateStage_props [of h nb st "seedsOf h nb st lg"] by blast
  from ends sub have "map_has (nodeMapOf h nb (snd ?cs)) (sourceId h l)"
    "map_has (nodeMapOf h nb (snd ?cs)) (targetId h l)"
    by (auto simp: map_has_nodeMapOf_iff)
  with l have lr: "l \<in> set (links r)" unfolding r fin by (simp add: linksWithin_def)
  from e k have "sourceId h l = id_n (h a) \<or> targetId h l = id_n (h a)" by simp
  with lr show ?thesis by (rule rev_bexI)
qed

end
